theory Spec2Isabelle
  imports Complex_Main "HOL-Library.AList"
begin

section \<open>Values of the Python program\<close>

text \<open>
  The program of \<^verbatim>\<open>scripts/sync.py\<close> works on the values that \<^verbatim>\<open>r.json()\<close> returns:
  \<^verbatim>\<open>None\<close>, booleans, integers, floats, strings, lists and dictionaries with string keys.
  A dictionary is an association list in insertion order. A finite float is the rational
  number it denotes (the program only tests floats for truth and for equality; the
  non-finite floats are outside the model).
\<close>

datatype json =
    JNull
  | JBool bool
  | JInt int
  | JFloat rat
  | JStr string
  | JList "json list"
  | JDict "(string \<times> json) list"

text \<open>
  The exceptions the program can raise. \<open>RequestException\<close> stands for every
  \<^verbatim>\<open>requests.exceptions.RequestException\<close> (transport failure, timeout, HTTP error status)
  and carries the text of the failure; \<open>StoreError\<close> is a failure of a call to the
  destination store. \<open>AttributeError\<close> carries the type name of the receiver and the
  attribute, \<open>TypeError\<close> the type name of the offending value and what was tried.
\<close>

datatype error =
    RequestException string
  | JSONDecodeError
  | KeyError string
  | AttributeError string string
  | TypeError string string
  | RuntimeError string
  | StopIteration
  | UnboundLocalError string
  | ValueError string
  | StoreError string

fun type_name :: "json \<Rightarrow> string" where
  "type_name JNull = ''NoneType''"
| "type_name (JBool _) = ''bool''"
| "type_name (JInt _) = ''int''"
| "type_name (JFloat _) = ''float''"
| "type_name (JStr _) = ''str''"
| "type_name (JList _) = ''list''"
| "type_name (JDict _) = ''dict''"

text \<open>Python truth value: \<^verbatim>\<open>if x:\<close>.\<close>

fun truthy :: "json \<Rightarrow> bool" where
  "truthy JNull = False"
| "truthy (JBool b) = b"
| "truthy (JInt i) = (i \<noteq> 0)"
| "truthy (JFloat r) = (r \<noteq> 0)"
| "truthy (JStr s) = (s \<noteq> [])"
| "truthy (JList xs) = (xs \<noteq> [])"
| "truthy (JDict kvs) = (kvs \<noteq> [])"

text \<open>
  Keys of Python sets and dictionaries. Python hashes a value before it stores it;
  lists and dictionaries are unhashable (\<^verbatim>\<open>TypeError\<close>), and \<^verbatim>\<open>True == 1 == 1.0\<close>
  are one key. \<open>hash_key\<close> maps a value to the key it is as a member of a set.
\<close>

datatype pykey = KNone | KNum rat | KStr string

fun hash_key :: "json \<Rightarrow> error + pykey" where
  "hash_key JNull = Inr KNone"
| "hash_key (JBool b) = Inr (KNum (if b then 1 else 0))"
| "hash_key (JInt i) = Inr (KNum (of_int i))"
| "hash_key (JFloat r) = Inr (KNum r)"
| "hash_key (JStr s) = Inr (KStr s)"
| "hash_key (JList xs) = Inl (TypeError ''list'' ''unhashable'')"
| "hash_key (JDict kvs) = Inl (TypeError ''dict'' ''unhashable'')"

text \<open>Sequencing of computations that may raise: the first exception wins.\<close>

definition bindE :: "error + 'a \<Rightarrow> ('a \<Rightarrow> error + 'b) \<Rightarrow> error + 'b" where
  "bindE m f = (case m of Inl e \<Rightarrow> Inl e | Inr x \<Rightarrow> f x)"

fun mapE :: "('a \<Rightarrow> error + 'b) \<Rightarrow> 'a list \<Rightarrow> error + 'b list" where
  "mapE f [] = Inr []"
| "mapE f (x # xs) = bindE (f x) (\<lambda>y. bindE (mapE f xs) (\<lambda>ys. Inr (y # ys)))"

text \<open>\<^verbatim>\<open>d.get(k, default)\<close>: only a dictionary has the method.\<close>

fun py_get :: "json \<Rightarrow> string \<Rightarrow> json \<Rightarrow> error + json" where
  "py_get (JDict kvs) k dflt = Inr (case map_of kvs k of None \<Rightarrow> dflt | Some v \<Rightarrow> v)"
| "py_get x k dflt = Inl (AttributeError (type_name x) ''get'')"

text \<open>\<^verbatim>\<open>d[k]\<close> with a string \<open>k\<close>: \<^verbatim>\<open>KeyError\<close> on a dictionary without the key,
  \<^verbatim>\<open>TypeError\<close> on every other value.\<close>

fun py_item :: "json \<Rightarrow> string \<Rightarrow> error + json" where
  "py_item (JDict kvs) k = (case map_of kvs k of None \<Rightarrow> Inl (KeyError k) | Some v \<Rightarrow> Inr v)"
| "py_item x k = Inl (TypeError (type_name x) ''subscript'')"

text \<open>\<^verbatim>\<open>d[k] = v\<close>: the key keeps its place if it is there, and is appended otherwise.\<close>

fun py_setitem :: "json \<Rightarrow> string \<Rightarrow> json \<Rightarrow> error + json" where
  "py_setitem (JDict kvs) k v = Inr (JDict (AList.update k v kvs))"
| "py_setitem x k v = Inl (TypeError (type_name x) ''item assignment'')"

text \<open>\<^verbatim>\<open>d.pop(k, None)\<close>, for the dictionary it leaves behind.\<close>

fun py_pop :: "json \<Rightarrow> string \<Rightarrow> error + json" where
  "py_pop (JDict kvs) k = Inr (JDict (AList.delete k kvs))"
| "py_pop x k = Inl (AttributeError (type_name x) ''pop'')"

section \<open>The paginated fetcher\<close>

definition LIMIT :: nat where
  "LIMIT = 250"

definition MAX_RETRIES :: nat where
  "MAX_RETRIES = 3"

text \<open>
  \<^verbatim>\<open>normalize_image\<close>, lines 27-35.
\<close>

fun normalize_image :: "json \<Rightarrow> json" where
  "normalize_image (JDict kvs) =
     JDict [(''title'', (case map_of kvs ''title'' of None \<Rightarrow> JNull | Some v \<Rightarrow> v)),
            (''thumb'', (case map_of kvs ''thumb'' of None \<Rightarrow> JNull | Some v \<Rightarrow> v)),
            (''src'', (case map_of kvs ''src'' of None \<Rightarrow> JNull | Some v \<Rightarrow> v))]"
| "normalize_image img = JNull"

text \<open>
  What one \<^verbatim>\<open>requests.get\<close> followed by \<^verbatim>\<open>raise_for_status\<close> can give: a failure that
  the \<^verbatim>\<open>except\<close> clause of the retry loop catches, a response whose body is not JSON
  (\<^verbatim>\<open>r.json()\<close> raises, outside the \<^verbatim>\<open>try\<close>), or a response with a JSON body.
  The remote API is a parameter: a function from the page and the attempt number to the
  response. Within one fetch every pair of page and attempt is requested at most once.
\<close>

datatype response = Failed string | NotJson | Body json

text \<open>What a fetch does besides returning: the requests it sends and the sleeps it takes.\<close>

datatype event = Request nat nat | Sleep nat

text \<open>
  The retry loop, lines 43-58 and 80-95: \<^verbatim>\<open>for attempt in range(MAX_RETRIES)\<close> is the
  recursion over the list of attempt numbers. The loop is left by \<^verbatim>\<open>break\<close> on a
  response and by \<^verbatim>\<open>raise\<close> on the failure of attempt \<open>MAX_RETRIES - 1\<close>; after any
  other failure it sleeps \<open>2 ^ attempt\<close> seconds. A loop that ran out of attempts
  would leave \<^verbatim>\<open>r\<close> unbound.
\<close>

fun retry_loop :: "(nat \<Rightarrow> response) \<Rightarrow> nat \<Rightarrow> nat list \<Rightarrow> event list
    \<Rightarrow> (error + response) \<times> event list" where
  "retry_loop get page [] tr = (Inl (UnboundLocalError ''r''), tr)"
| "retry_loop get page (attempt # rest) tr =
     (case get attempt of
        Failed msg \<Rightarrow>
          if attempt = MAX_RETRIES - 1
          then (Inl (RequestException msg), tr @ [Request page attempt])
          else retry_loop get page rest (tr @ [Request page attempt, Sleep (2 ^ attempt)])
      | r \<Rightarrow> (Inr r, tr @ [Request page attempt]))"

definition request_page :: "(nat \<Rightarrow> nat \<Rightarrow> response) \<Rightarrow> nat \<Rightarrow> event list
    \<Rightarrow> (error + response) \<times> event list" where
  "request_page api page tr = retry_loop (api page) page [0 ..< MAX_RETRIES] tr"

text \<open>\<^verbatim>\<open>r.json().get(key, [])\<close>, lines 60 and 97.\<close>

fun read_batch :: "response \<Rightarrow> string \<Rightarrow> error + json" where
  "read_batch (Body b) key = py_get b key (JList [])"
| "read_batch NotJson key = Inl JSONDecodeError"
| "read_batch (Failed msg) key = Inl (RequestException msg)"

text \<open>
  \<^verbatim>\<open>for p in batch: p["image"] = normalize_image(p.get("image"))\<close>, lines 64-65 and
  101-102. Iterating a dictionary or a string gives strings, which have no \<^verbatim>\<open>get\<close>;
  a number or a boolean is not iterable.
\<close>

definition normalize_entity :: "json \<Rightarrow> error + json" where
  "normalize_entity p =
     bindE (py_get p ''image'' JNull) (\<lambda>img. py_setitem p ''image'' (normalize_image img))"

fun normalize_batch :: "json \<Rightarrow> error + json list" where
  "normalize_batch (JList ps) = mapE normalize_entity ps"
| "normalize_batch (JDict kvs) = Inl (AttributeError ''str'' ''get'')"
| "normalize_batch (JStr s) = Inl (AttributeError ''str'' ''get'')"
| "normalize_batch x = Inl (TypeError (type_name x) ''not iterable'')"

text \<open>
  The page loop, lines 42-72 and 79-109: \<^verbatim>\<open>while True\<close> with the page cursor, the
  entities collected so far and the events so far. The loop need not end (a source that
  answers every page with a full batch), so the function is partial: \<open>None\<close> is a fetch
  that never returns.
\<close>

partial_function (option) fetch_pages :: "(nat \<Rightarrow> nat \<Rightarrow> response) \<Rightarrow> string \<Rightarrow> nat
    \<Rightarrow> json list \<Rightarrow> event list \<Rightarrow> ((error + json list) \<times> event list) option" where
  "fetch_pages api key page acc tr =
     (case request_page api page tr of
        (Inl e, tr') \<Rightarrow> Some (Inl e, tr')
      | (Inr r, tr') \<Rightarrow>
          (case read_batch r key of
             Inl e \<Rightarrow> Some (Inl e, tr')
           | Inr batch \<Rightarrow>
               if \<not> truthy batch then Some (Inr acc, tr')
               else (case normalize_batch batch of
                       Inl e \<Rightarrow> Some (Inl e, tr')
                     | Inr ps \<Rightarrow>
                         if length ps < LIMIT then Some (Inr (acc @ ps), tr')
                         else fetch_pages api key (page + 1) (acc @ ps) tr')))"

text \<open>
  \<^verbatim>\<open>fetch_products\<close> (lines 38-72) and \<^verbatim>\<open>fetch_variants\<close> (lines 75-109) are the same
  loop on the two collections; the language, the credentials and the field list select
  the source \<open>api\<close> that answers.
\<close>

definition fetch_products :: "(nat \<Rightarrow> nat \<Rightarrow> response) \<Rightarrow> ((error + json list) \<times> event list) option" where
  "fetch_products api = fetch_pages api ''products'' 1 [] []"

definition fetch_variants :: "(nat \<Rightarrow> nat \<Rightarrow> response) \<Rightarrow> ((error + json list) \<times> event list) option" where
  "fetch_variants api = fetch_pages api ''variants'' 1 [] []"

fun is_request :: "event \<Rightarrow> bool" where
  "is_request (Request p a) = True"
| "is_request (Sleep n) = False"

fun sleeps :: "event list \<Rightarrow> nat list" where
  "sleeps [] = []"
| "sleeps (Request p a # es) = sleeps es"
| "sleeps (Sleep n # es) = n # sleeps es"

section \<open>The join of variants to products\<close>

text \<open>\<^verbatim>\<open>v.get("product", {}).get("resource", {}).get("id")\<close>, line 116.\<close>

definition relation_id :: "json \<Rightarrow> error + json" where
  "relation_id v =
     bindE (py_get v ''product'' (JDict [])) (\<lambda>p.
     bindE (py_get p ''resource'' (JDict [])) (\<lambda>r.
     py_get r ''id'' JNull))"

text \<open>
  \<^verbatim>\<open>by_product\<close> is a \<^verbatim>\<open>defaultdict(list)\<close>: an association list from keys to lists
  of variants, in the order in which the keys were first used.
  \<^verbatim>\<open>by_product[pid].append(v)\<close> is \<open>append_to\<close>.
\<close>

type_synonym by_product = "(pykey \<times> json list) list"

definition lookup_list :: "by_product \<Rightarrow> pykey \<Rightarrow> json list" where
  "lookup_list bp k = (case map_of bp k of None \<Rightarrow> [] | Some l \<Rightarrow> l)"

definition append_to :: "by_product \<Rightarrow> pykey \<Rightarrow> json \<Rightarrow> by_product" where
  "append_to bp k v = AList.update k (lookup_list bp k @ [v]) bp"

text \<open>
  The loop of lines 115-119. It mutates the variants in place (\<^verbatim>\<open>v.pop("product", None)\<close>),
  so besides \<^verbatim>\<open>by_product\<close> the function returns the list \<^verbatim>\<open>variants\<close> as the loop
  leaves it.
\<close>

fun group_variants :: "json list \<Rightarrow> by_product \<Rightarrow> error + (by_product \<times> json list)" where
  "group_variants [] bp = Inr (bp, [])"
| "group_variants (v # vs) bp =
     (case relation_id v of
        Inl e \<Rightarrow> Inl e
      | Inr pid \<Rightarrow>
          if truthy pid then
            (case py_pop v ''product'' of
               Inl e \<Rightarrow> Inl e
             | Inr v' \<Rightarrow>
                 (case hash_key pid of
                    Inl e \<Rightarrow> Inl e
                  | Inr k \<Rightarrow>
                      (case group_variants vs (append_to bp k v') of
                         Inl e \<Rightarrow> Inl e
                       | Inr (bp', vs') \<Rightarrow> Inr (bp', v' # vs'))))
          else
            (case group_variants vs bp of
               Inl e \<Rightarrow> Inl e
             | Inr (bp', vs') \<Rightarrow> Inr (bp', v # vs')))"

text \<open>\<^verbatim>\<open>{p["id"] for p in products}\<close>, lines 121 and 265.\<close>

definition entity_key :: "json \<Rightarrow> error + pykey" where
  "entity_key p = bindE (py_item p ''id'') hash_key"

definition id_set :: "json list \<Rightarrow> error + pykey set" where
  "id_set ps = bindE (mapE entity_key ps) (\<lambda>ks. Inr (set ks))"

text \<open>\<^verbatim>\<open>p["variants"] = by_product.get(p["id"], [])\<close>, line 124.\<close>

definition set_variants :: "by_product \<Rightarrow> json \<Rightarrow> error + json" where
  "set_variants bp p =
     bindE (entity_key p) (\<lambda>k. py_setitem p ''variants'' (JList (lookup_list bp k)))"

text \<open>
  What the program prints, as far as it is a warning or an error: the data of the line,
  not its layout. \<open>OrphanVariants prefix n pid ids\<close> is the line of line 130,
  \<open>FilteredProducts\<close> and \<open>FilteredVariants\<close> those of lines 360 and 362,
  \<open>UpsertFailed\<close> that of line 144 and \<open>SyncError\<close> that of line 409. The status
  lines that only report progress are not modelled, and neither are the lines a function
  printed before it raised.
\<close>

datatype line =
    OrphanVariants string nat pykey "json list"
  | FilteredProducts string int
  | FilteredVariants string int
  | UpsertFailed string nat string
  | SyncError string string

text \<open>\<^verbatim>\<open>f"[{shop_name}] " if shop_name else ""\<close>, line 129.\<close>

fun shop_prefix :: "string option \<Rightarrow> string" where
  "shop_prefix None = []"
| "shop_prefix (Some n) = (if n \<noteq> [] then ''['' @ n @ ''] '' else [])"

text \<open>Lines 127-130, for one entry of \<^verbatim>\<open>by_product.items()\<close>.\<close>

fun orphan_report :: "string option \<Rightarrow> pykey set \<Rightarrow> pykey \<times> json list \<Rightarrow> error + line list" where
  "orphan_report shop_name product_ids (pid, variants_list) =
     (if pid \<notin> product_ids
      then bindE (mapE (\<lambda>v. py_item v ''id'') variants_list) (\<lambda>ids.
             Inr [OrphanVariants (shop_prefix shop_name) (length variants_list) pid ids])
      else Inr [])"

record attached =
  att_products :: "json list"
  att_variants :: "json list"
  att_warnings :: "line list"

text \<open>
  \<^verbatim>\<open>attach_variants\<close>, lines 112-132. \<open>att_products\<close> is the value returned,
  \<open>att_variants\<close> the caller's list \<^verbatim>\<open>variants\<close> after the call, \<open>att_warnings\<close> the
  lines printed.
\<close>

definition attach_variants :: "json list \<Rightarrow> json list \<Rightarrow> string option \<Rightarrow> error + attached" where
  "attach_variants products variants shop_name =
     (case group_variants variants [] of
        Inl e \<Rightarrow> Inl e
      | Inr (bp, variants') \<Rightarrow>
          bindE (id_set products) (\<lambda>product_ids.
          bindE (mapE (set_variants bp) products) (\<lambda>products'.
          bindE (mapE (orphan_report shop_name product_ids) bp) (\<lambda>warnings.
          Inr \<lparr>att_products = products', att_variants = variants',
               att_warnings = concat warnings\<rparr>))))"

section \<open>Shops, rows and the destination store\<close>

text \<open>
  A shop of the roster (line 395): \<^verbatim>\<open>id\<close>, \<^verbatim>\<open>name\<close>, \<^verbatim>\<open>tld\<close> and the nested
  \<^verbatim>\<open>shop_languages\<close> with \<^verbatim>\<open>code\<close>, \<^verbatim>\<open>is_active\<close> and \<^verbatim>\<open>is_default\<close>. The roster is
  read from typed columns, so the fields are always there; a \<^verbatim>\<open>tld\<close> that is null is
  \<open>None\<close>, and the two flags are their truth values.
\<close>

record language =
  lang_code :: string
  lang_is_active :: bool
  lang_is_default :: bool

record shop =
  sh_id :: json
  sh_name :: string
  sh_tld :: "string option"
  sh_languages :: "language list"

text \<open>
  The dictionaries the program builds for the four tables have fixed keys, so each is a
  record: lines 214-221, 223-232 (and 330-339), 235-243, 245-250 (and 345-350).
\<close>

record product_row =
  pr_shop_id :: json
  pr_product_id :: json
  pr_visibility :: json
  pr_image :: json
  pr_created_at :: json
  pr_updated_at :: json

record content_row =
  pc_shop_id :: json
  pc_product_id :: json
  pc_language_code :: string
  pc_url :: json
  pc_title :: json
  pc_fulltitle :: json
  pc_description :: json
  pc_content :: json

record variant_row =
  vr_shop_id :: json
  vr_product_id :: json
  vr_variant_id :: json
  vr_sku :: json
  vr_is_default :: json
  vr_price_excl :: json
  vr_image :: json

record variant_content_row =
  vc_shop_id :: json
  vc_variant_id :: json
  vc_language_code :: string
  vc_title :: json

text \<open>
  \<open>rows\<close> is the pair of table and rows that \<^verbatim>\<open>bulk_upsert\<close> is called with; the
  program always calls it with the conflict columns of that table (lines 256-259, 364-365).
\<close>

datatype rows =
    ProductRows "product_row list"
  | ProductContentRows "content_row list"
  | VariantRows "variant_row list"
  | VariantContentRows "variant_content_row list"

record metrics =
  products_fetched :: int
  variants_fetched :: int
  products_synced :: int
  variants_synced :: int
  products_deleted :: int
  variants_deleted :: int
  variants_filtered :: int

text \<open>
  A row of \<^verbatim>\<open>sync_logs\<close>: the audit record of one run. \<open>log_metrics\<close> is \<open>None\<close> until
  an update writes the metrics.
\<close>

record log_row =
  log_id :: nat
  log_shop_id :: json
  log_status :: string
  log_completed :: bool
  log_error_message :: "string option"
  log_metrics :: "metrics option"

text \<open>The calls the program makes to the store, in the order in which it makes them.\<close>

datatype call =
    InsertLog json
  | UpdateLog nat string "string option" metrics
  | Upsert rows
  | SelectProductIds json
  | SelectVariantIds json
  | DeleteProducts json "pykey set"
  | DeleteVariants json "pykey set"

text \<open>
  The destination store is not code of the repository; the model is the one the program
  relies on. The five tables are lists of rows; \<open>calls\<close> records every call made and
  \<open>console\<close> every line printed. There are no triggers and no cascading deletes, and
  nobody else writes to the store during a run.
\<close>

record world =
  tbl_products :: "product_row list"
  tbl_product_content :: "content_row list"
  tbl_variants :: "variant_row list"
  tbl_variant_content :: "variant_content_row list"
  tbl_sync_logs :: "log_row list"
  calls :: "call list"
  console :: "line list"

text \<open>
  What the program is run against. \<open>getenv\<close> is the process environment and \<open>upper\<close>
  is \<^verbatim>\<open>str.upper\<close>. \<open>api key secret lang kind page attempt\<close> is the answer of the
  remote API to the request for a page of a collection (\<open>kind\<close> is \<^verbatim>\<open>products\<close> or
  \<^verbatim>\<open>variants\<close>) of a language under a shop's credentials. \<open>store_fault n\<close> says whether
  the call that the store receives after \<open>n\<close> earlier calls fails, and with what text.
  \<open>exc_text\<close> is \<^verbatim>\<open>str(e)\<close>.
\<close>

record env =
  getenv :: "string \<Rightarrow> string option"
  upper :: "string \<Rightarrow> string"
  api :: "string \<Rightarrow> string \<Rightarrow> string \<Rightarrow> string \<Rightarrow> nat \<Rightarrow> nat \<Rightarrow> response"
  store_fault :: "nat \<Rightarrow> string option"
  exc_text :: "error \<Rightarrow> string"

text \<open>
  One call to the store: it is recorded, and either fails as the environment says, leaving
  the tables as they are, or has its effect.
\<close>

definition store_call :: "env \<Rightarrow> call \<Rightarrow> (world \<Rightarrow> 'a \<times> world) \<Rightarrow> world \<Rightarrow> (error + 'a) \<times> world" where
  "store_call ev c effect w =
     (let w1 = w\<lparr>calls := calls w @ [c]\<rparr> in
      case store_fault ev (length (calls w)) of
        Some msg \<Rightarrow> (Inl (StoreError msg), w1)
      | None \<Rightarrow> (case effect w1 of (x, w2) \<Rightarrow> (Inr x, w2)))"

text \<open>Whether a stored id is one of the keys of a Python set.\<close>

definition key_in :: "json \<Rightarrow> pykey set \<Rightarrow> bool" where
  "key_in x ks = (case hash_key x of Inl e \<Rightarrow> False | Inr k \<Rightarrow> k \<in> ks)"

text \<open>
  An upsert replaces the row that agrees on the conflict columns with the new row, or
  appends the new row.
\<close>

definition upsert1 :: "('r \<Rightarrow> 'k) \<Rightarrow> 'r list \<Rightarrow> 'r \<Rightarrow> 'r list" where
  "upsert1 keyf tbl r =
     (if keyf r \<in> keyf ` set tbl then map (\<lambda>x. if keyf x = keyf r then r else x) tbl
      else tbl @ [r])"

definition upsert_all :: "('r \<Rightarrow> 'k) \<Rightarrow> 'r list \<Rightarrow> 'r list \<Rightarrow> 'r list" where
  "upsert_all keyf new tbl = foldl (upsert1 keyf) tbl new"

fun apply_upsert :: "rows \<Rightarrow> world \<Rightarrow> unit \<times> world" where
  "apply_upsert (ProductRows rs) w =
     ((), w\<lparr>tbl_products :=
              upsert_all (\<lambda>r. (pr_shop_id r, hash_key (pr_product_id r))) rs (tbl_products w)\<rparr>)"
| "apply_upsert (ProductContentRows rs) w =
     ((), w\<lparr>tbl_product_content :=
              upsert_all (\<lambda>r. (pc_shop_id r, hash_key (pc_product_id r), pc_language_code r)) rs
                (tbl_product_content w)\<rparr>)"
| "apply_upsert (VariantRows rs) w =
     ((), w\<lparr>tbl_variants :=
              upsert_all (\<lambda>r. (vr_shop_id r, hash_key (vr_variant_id r))) rs (tbl_variants w)\<rparr>)"
| "apply_upsert (VariantContentRows rs) w =
     ((), w\<lparr>tbl_variant_content :=
              upsert_all (\<lambda>r. (vc_shop_id r, hash_key (vc_variant_id r), vc_language_code r)) rs
                (tbl_variant_content w)\<rparr>)"

fun no_rows :: "rows \<Rightarrow> bool" where
  "no_rows (ProductRows rs) = (rs = [])"
| "no_rows (ProductContentRows rs) = (rs = [])"
| "no_rows (VariantRows rs) = (rs = [])"
| "no_rows (VariantContentRows rs) = (rs = [])"

fun count_rows :: "rows \<Rightarrow> nat" where
  "count_rows (ProductRows rs) = length rs"
| "count_rows (ProductContentRows rs) = length rs"
| "count_rows (VariantRows rs) = length rs"
| "count_rows (VariantContentRows rs) = length rs"

fun table_name :: "rows \<Rightarrow> string" where
  "table_name (ProductRows rs) = ''products''"
| "table_name (ProductContentRows rs) = ''product_content''"
| "table_name (VariantRows rs) = ''variants''"
| "table_name (VariantContentRows rs) = ''variant_content''"

text \<open>
  \<^verbatim>\<open>select("lightspeed_product_id").eq("shop_id", ...)\<close> (lines 267-273) and the same
  for the variants (lines 289-295): the ids of the shop's rows.
\<close>

definition select_product_ids :: "json \<Rightarrow> world \<Rightarrow> json list \<times> world" where
  "select_product_ids sid w =
     (map pr_product_id (filter (\<lambda>r. pr_shop_id r = sid) (tbl_products w)), w)"

definition select_variant_ids :: "json \<Rightarrow> world \<Rightarrow> json list \<times> world" where
  "select_variant_ids sid w =
     (map vr_variant_id (filter (\<lambda>r. vr_shop_id r = sid) (tbl_variants w)), w)"

text \<open>
  \<^verbatim>\<open>delete().eq("shop_id", ...).in_("lightspeed_product_id", ...)\<close> (lines 279-282)
  and the same for the variants (lines 301-304).
\<close>

definition delete_products :: "json \<Rightarrow> pykey set \<Rightarrow> world \<Rightarrow> unit \<times> world" where
  "delete_products sid ks w =
     ((), w\<lparr>tbl_products :=
              filter (\<lambda>r. \<not> (pr_shop_id r = sid \<and> key_in (pr_product_id r) ks)) (tbl_products w)\<rparr>)"

definition delete_variants :: "json \<Rightarrow> pykey set \<Rightarrow> world \<Rightarrow> unit \<times> world" where
  "delete_variants sid ks w =
     ((), w\<lparr>tbl_variants :=
              filter (\<lambda>r. \<not> (vr_shop_id r = sid \<and> key_in (vr_variant_id r) ks)) (tbl_variants w)\<rparr>)"

text \<open>
  The insert of lines 158-162 returns the id the store gives the new audit row; the
  updates of lines 368-372 and 376-381 write the status, the completion time, the error
  text (if any) and the metrics into the rows with that id.
\<close>

definition fresh_log_id :: "log_row list \<Rightarrow> nat" where
  "fresh_log_id logs = Suc (foldr max (map log_id logs) 0)"

definition insert_log :: "json \<Rightarrow> world \<Rightarrow> nat \<times> world" where
  "insert_log sid w =
     (let i = fresh_log_id (tbl_sync_logs w) in
      (i, w\<lparr>tbl_sync_logs := tbl_sync_logs w @
               [\<lparr>log_id = i, log_shop_id = sid, log_status = ''running'', log_completed = False,
                 log_error_message = None, log_metrics = None\<rparr>]\<rparr>))"

definition update_log :: "nat \<Rightarrow> string \<Rightarrow> string option \<Rightarrow> metrics \<Rightarrow> world \<Rightarrow> unit \<times> world" where
  "update_log i status msg m w =
     ((), w\<lparr>tbl_sync_logs :=
              map (\<lambda>r. if log_id r = i
                        then r\<lparr>log_status := status, log_completed := True,
                               log_error_message := (case msg of None \<Rightarrow> log_error_message r
                                                     | Some t \<Rightarrow> Some t),
                               log_metrics := Some m\<rparr>
                        else r) (tbl_sync_logs w)\<rparr>)"

section \<open>The pipeline of one shop\<close>

text \<open>
  What \<^verbatim>\<open>sync_shop\<close> changes as it runs: the dictionary \<^verbatim>\<open>metrics\<close> and the world. A
  step maps the state to the state it leaves and to its value or the exception it raised;
  \<open>seq\<close> runs a step after another unless the first one raised.
\<close>

record run_state =
  st_metrics :: metrics
  st_world :: world

type_synonym 'a step = "run_state \<Rightarrow> (error + 'a) \<times> run_state"

definition seq :: "'a step \<Rightarrow> ('a \<Rightarrow> 'b step) \<Rightarrow> 'b step" where
  "seq m f s = (case m s of (Inl e, s') \<Rightarrow> (Inl e, s') | (Inr x, s') \<Rightarrow> f x s')"

definition ret :: "'a \<Rightarrow> 'a step" where
  "ret x s = (Inr x, s)"

definition lift :: "error + 'a \<Rightarrow> 'a step" where
  "lift r s = (r, s)"

definition set_metrics :: "(metrics \<Rightarrow> metrics) \<Rightarrow> unit step" where
  "set_metrics f s = (Inr (), s\<lparr>st_metrics := f (st_metrics s)\<rparr>)"

definition print_lines :: "line list \<Rightarrow> unit step" where
  "print_lines ls s =
     (Inr (), s\<lparr>st_world := (st_world s)\<lparr>console := console (st_world s) @ ls\<rparr>\<rparr>)"

definition on_store :: "(world \<Rightarrow> (error + 'a) \<times> world) \<Rightarrow> 'a step" where
  "on_store f s = (case f (st_world s) of (r, w) \<Rightarrow> (r, s\<lparr>st_world := w\<rparr>))"

text \<open>
  \<^verbatim>\<open>bulk_upsert\<close>, lines 138-145: nothing for an empty list of rows; otherwise one call
  to the store, whose failure is printed and raised again.
\<close>

definition bulk_upsert :: "env \<Rightarrow> rows \<Rightarrow> unit step" where
  "bulk_upsert ev rs s =
     (if no_rows rs then (Inr (), s)
      else (case on_store (store_call ev (Upsert rs) (apply_upsert rs)) s of
              (Inl e, s') \<Rightarrow>
                (Inl e, s'\<lparr>st_world := (st_world s')\<lparr>console := console (st_world s') @
                   [UpsertFailed (table_name rs) (count_rows rs) (exc_text ev e)]\<rparr>\<rparr>)
            | (Inr u, s') \<Rightarrow> (Inr (), s')))"

text \<open>
  Lines 176-186: the credentials of the shop, its base language (the first language that
  is the default; \<^verbatim>\<open>next\<close> raises \<^verbatim>\<open>StopIteration\<close> if there is none) and the codes of
  its active languages.
\<close>

definition resolve :: "env \<Rightarrow> shop \<Rightarrow> error + (string \<times> string \<times> string \<times> string list)" where
  "resolve ev shp =
     (case sh_tld shp of
        None \<Rightarrow> Inl (AttributeError ''NoneType'' ''upper'')
      | Some t \<Rightarrow>
          (let tld = upper ev t;
               missing = Inl (RuntimeError (''Missing API credentials for shop TLD='' @ tld))
           in case getenv ev (''LIGHTSPEED_API_KEY_'' @ tld) of
                None \<Rightarrow> (case getenv ev (''LIGHTSPEED_API_SECRET_'' @ tld) of
                            None \<Rightarrow> missing | Some api_secret \<Rightarrow> missing)
              | Some api_key \<Rightarrow>
                  (case getenv ev (''LIGHTSPEED_API_SECRET_'' @ tld) of
                     None \<Rightarrow> missing
                   | Some api_secret \<Rightarrow>
                       if api_key = [] \<or> api_secret = [] then missing
                       else (case find lang_is_default (sh_languages shp) of
                               None \<Rightarrow> Inl StopIteration
                             | Some l \<Rightarrow>
                                 Inr (api_key, api_secret, lang_code l,
                                      map lang_code (filter lang_is_active (sh_languages shp)))))))"

text \<open>
  The two fetches of a language, lines 191-196 and 321-326. Both run to their end before
  the \<^verbatim>\<open>with\<close> block is left; the result of the products is asked for first.
\<close>

definition fetch_pair :: "env \<Rightarrow> string \<Rightarrow> string \<Rightarrow> string
    \<Rightarrow> (error + json list \<times> json list) option" where
  "fetch_pair ev api_key api_secret lang =
     (case fetch_products (api ev api_key api_secret lang ''products'') of
        None \<Rightarrow> None
      | Some (rp, tp) \<Rightarrow>
          (case fetch_variants (api ev api_key api_secret lang ''variants'') of
             None \<Rightarrow> None
           | Some (rv, tv) \<Rightarrow>
               Some (case rp of
                       Inl e \<Rightarrow> Inl e
                     | Inr products \<Rightarrow>
                         (case rv of Inl e \<Rightarrow> Inl e | Inr variants \<Rightarrow> Inr (products, variants)))))"

text \<open>\<^verbatim>\<open>p.get(k)\<close> for a \<open>p\<close> that \<^verbatim>\<open>p["id"]\<close> has just shown to be a dictionary.\<close>

fun get_or_none :: "json \<Rightarrow> string \<Rightarrow> json" where
  "get_or_none (JDict kvs) k = (case map_of kvs k of None \<Rightarrow> JNull | Some v \<Rightarrow> v)"
| "get_or_none x k = JNull"

text \<open>\<^verbatim>\<open>for v in xs\<close>: the elements of a list, the keys of a dictionary, the characters
  of a string; no other value is iterable.\<close>

fun py_iter :: "json \<Rightarrow> error + json list" where
  "py_iter (JList xs) = Inr xs"
| "py_iter (JDict kvs) = Inr (map (\<lambda>kv. JStr (fst kv)) kvs)"
| "py_iter (JStr s) = Inr (map (\<lambda>c. JStr [c]) s)"
| "py_iter x = Inl (TypeError (type_name x) ''not iterable'')"

fun py_len :: "json \<Rightarrow> error + nat" where
  "py_len (JList xs) = Inr (length xs)"
| "py_len (JDict kvs) = Inr (length kvs)"
| "py_len (JStr s) = Inr (length s)"
| "py_len x = Inl (TypeError (type_name x) ''len'')"

text \<open>The rows of a product and of its content, lines 214-232 and 330-339.\<close>

definition product_row_of :: "shop \<Rightarrow> json \<Rightarrow> json \<Rightarrow> product_row" where
  "product_row_of shp pid p =
     \<lparr>pr_shop_id = sh_id shp, pr_product_id = pid,
      pr_visibility = get_or_none p ''visibility'', pr_image = get_or_none p ''image'',
      pr_created_at = get_or_none p ''createdAt'', pr_updated_at = get_or_none p ''updatedAt''\<rparr>"

definition content_row_of :: "shop \<Rightarrow> string \<Rightarrow> json \<Rightarrow> json \<Rightarrow> content_row" where
  "content_row_of shp lang pid p =
     \<lparr>pc_shop_id = sh_id shp, pc_product_id = pid, pc_language_code = lang,
      pc_url = get_or_none p ''url'', pc_title = get_or_none p ''title'',
      pc_fulltitle = get_or_none p ''fulltitle'',
      pc_description = get_or_none p ''description'', pc_content = get_or_none p ''content''\<rparr>"

text \<open>
  The two rows of a variant, lines 235-250: \<^verbatim>\<open>v["id"]\<close> and \<^verbatim>\<open>v["sku"]\<close> raise if
  the key is missing, the other fields are read with \<^verbatim>\<open>get\<close>.
\<close>

definition variant_rows_of :: "shop \<Rightarrow> string \<Rightarrow> json \<Rightarrow> json
    \<Rightarrow> error + variant_row \<times> variant_content_row" where
  "variant_rows_of shp base_lang pid v =
     bindE (py_item v ''id'') (\<lambda>vid.
     bindE (py_item v ''sku'') (\<lambda>sku.
     Inr (\<lparr>vr_shop_id = sh_id shp, vr_product_id = pid, vr_variant_id = vid, vr_sku = sku,
           vr_is_default = get_or_none v ''isDefault'',
           vr_price_excl = get_or_none v ''priceExcl'', vr_image = get_or_none v ''image''\<rparr>,
          \<lparr>vc_shop_id = sh_id shp, vc_variant_id = vid, vc_language_code = base_lang,
           vc_title = get_or_none v ''title''\<rparr>)))"

record base_rows =
  product_rows :: "product_row list"
  content_rows :: "content_row list"
  variant_rows :: "variant_row list"
  variant_content_rows :: "variant_content_row list"

text \<open>One round of the loop of lines 213-250, and the loop.\<close>

definition rows_of_product :: "shop \<Rightarrow> string \<Rightarrow> json
    \<Rightarrow> error + product_row \<times> content_row \<times> (variant_row \<times> variant_content_row) list" where
  "rows_of_product shp base_lang p =
     bindE (py_item p ''id'') (\<lambda>pid.
     bindE (py_item p ''variants'') (\<lambda>vl.
     bindE (py_iter vl) (\<lambda>vs.
     bindE (mapE (variant_rows_of shp base_lang pid) vs) (\<lambda>pairs.
     Inr (product_row_of shp pid p, content_row_of shp base_lang pid p, pairs)))))"

definition build_rows :: "shop \<Rightarrow> string \<Rightarrow> json list \<Rightarrow> error + base_rows" where
  "build_rows shp base_lang products =
     bindE (mapE (rows_of_product shp base_lang) products) (\<lambda>rs.
     Inr \<lparr>product_rows = map fst rs,
          content_rows = map (\<lambda>r. fst (snd r)) rs,
          variant_rows = concat (map (\<lambda>r. map fst (snd (snd r))) rs),
          variant_content_rows = concat (map (\<lambda>r. map snd (snd (snd r))) rs)\<rparr>)"

text \<open>\<^verbatim>\<open>len(p["variants"])\<close>, line 206.\<close>

definition count_attached :: "json \<Rightarrow> error + nat" where
  "count_attached p = bindE (py_item p ''variants'') py_len"

text \<open>
  Lines 198-206: the counts of what was fetched, the join, and the count of the variants
  that are attached to no product.
\<close>

definition attach_stage :: "shop \<Rightarrow> json list \<Rightarrow> json list \<Rightarrow> json list step" where
  "attach_stage shp products variants =
     seq (set_metrics (\<lambda>m. m\<lparr>products_fetched := int (length products),
                              variants_fetched := int (length variants)\<rparr>)) (\<lambda>u.
     seq (lift (attach_variants products variants (Some (sh_name shp)))) (\<lambda>a.
     seq (print_lines (att_warnings a)) (\<lambda>u.
     seq (lift (mapE count_attached (att_products a))) (\<lambda>counts.
     seq (set_metrics (\<lambda>m. m\<lparr>variants_filtered :=
                                int (length (att_variants a)) - sum_list (map int counts)\<rparr>)) (\<lambda>u.
     ret (att_products a))))))"

text \<open>Lines 208-259: the rows, their counts, and the four upserts in their order.\<close>

definition upsert_stage :: "env \<Rightarrow> shop \<Rightarrow> string \<Rightarrow> json list \<Rightarrow> variant_row list step" where
  "upsert_stage ev shp base_lang products =
     seq (lift (build_rows shp base_lang products)) (\<lambda>rs.
     seq (set_metrics (\<lambda>m. m\<lparr>products_synced := int (length (product_rows rs)),
                              variants_synced := int (length (variant_rows rs))\<rparr>)) (\<lambda>u.
     seq (bulk_upsert ev (ProductRows (product_rows rs))) (\<lambda>u.
     seq (bulk_upsert ev (ProductContentRows (content_rows rs))) (\<lambda>u.
     seq (bulk_upsert ev (VariantRows (variant_rows rs))) (\<lambda>u.
     seq (bulk_upsert ev (VariantContentRows (variant_content_rows rs))) (\<lambda>u.
     ret (variant_rows rs)))))))"

text \<open>
  Lines 264-284: the ids of the fetched products, the ids the store holds for the shop,
  and the delete of the difference if it is not empty.
\<close>

definition cleanup_products :: "env \<Rightarrow> shop \<Rightarrow> json list \<Rightarrow> pykey set step" where
  "cleanup_products ev shp products =
     seq (lift (id_set products)) (\<lambda>api_product_ids.
     seq (on_store (store_call ev (SelectProductIds (sh_id shp))
            (select_product_ids (sh_id shp)))) (\<lambda>existing_products.
     seq (lift (mapE hash_key existing_products)) (\<lambda>ks.
       let orphaned_products = set ks - api_product_ids in
       if orphaned_products \<noteq> {} then
         seq (on_store (store_call ev (DeleteProducts (sh_id shp) orphaned_products)
                (delete_products (sh_id shp) orphaned_products))) (\<lambda>u.
         seq (set_metrics (\<lambda>m. m\<lparr>products_deleted := int (card orphaned_products)\<rparr>)) (\<lambda>u.
         ret api_product_ids))
       else ret api_product_ids)))"

text \<open>Lines 286-306: the same for the variants, from the variant rows that were built.\<close>

definition cleanup_variants :: "env \<Rightarrow> shop \<Rightarrow> variant_row list \<Rightarrow> pykey set step" where
  "cleanup_variants ev shp vrows =
     seq (lift (mapE (\<lambda>v. hash_key (vr_variant_id v)) vrows)) (\<lambda>vks.
       let api_variant_ids = set vks in
     seq (on_store (store_call ev (SelectVariantIds (sh_id shp))
            (select_variant_ids (sh_id shp)))) (\<lambda>existing_variants.
     seq (lift (mapE hash_key existing_variants)) (\<lambda>ks.
       let orphaned_variants = set ks - api_variant_ids in
       if orphaned_variants \<noteq> {} then
         seq (on_store (store_call ev (DeleteVariants (sh_id shp) orphaned_variants)
                (delete_variants (sh_id shp) orphaned_variants))) (\<lambda>u.
         seq (set_metrics (\<lambda>m. m\<lparr>variants_deleted := int (card orphaned_variants)\<rparr>)) (\<lambda>u.
         ret api_variant_ids))
       else ret api_variant_ids)))"

definition cleanup :: "env \<Rightarrow> shop \<Rightarrow> json list \<Rightarrow> variant_row list \<Rightarrow> (pykey set \<times> pykey set) step" where
  "cleanup ev shp products vrows =
     seq (cleanup_products ev shp products) (\<lambda>api_product_ids.
     seq (cleanup_variants ev shp vrows) (\<lambda>api_variant_ids.
     ret (api_product_ids, api_variant_ids)))"

text \<open>
  The base language, lines 198-313. The value is the pair of \<^verbatim>\<open>valid_product_ids\<close> and
  \<^verbatim>\<open>valid_variant_ids\<close> (lines 312-313), which are \<^verbatim>\<open>api_product_ids\<close> and
  \<^verbatim>\<open>api_variant_ids\<close>.
\<close>

definition sync_base :: "env \<Rightarrow> shop \<Rightarrow> string \<Rightarrow> json list \<Rightarrow> json list
    \<Rightarrow> (pykey set \<times> pykey set) step" where
  "sync_base ev shp base_lang products variants =
     seq (attach_stage shp products variants) (\<lambda>products'.
     seq (upsert_stage ev shp base_lang products') (\<lambda>vrows.
     cleanup ev shp products' vrows))"

text \<open>
  One secondary language, lines 328-365: the content rows of the entities whose id is in
  the valid set, the counts of those left out, and the two upserts.
\<close>

definition localized_product_row :: "shop \<Rightarrow> string \<Rightarrow> pykey set \<Rightarrow> json \<Rightarrow> error + content_row list" where
  "localized_product_row shp lang valid_product_ids p =
     bindE (py_item p ''id'') (\<lambda>pid.
     bindE (hash_key pid) (\<lambda>k.
     Inr (if k \<in> valid_product_ids then [content_row_of shp lang pid p] else [])))"

definition localized_variant_row :: "shop \<Rightarrow> string \<Rightarrow> pykey set \<Rightarrow> json
    \<Rightarrow> error + variant_content_row list" where
  "localized_variant_row shp lang valid_variant_ids v =
     bindE (py_item v ''id'') (\<lambda>vid.
     bindE (hash_key vid) (\<lambda>k.
     Inr (if k \<in> valid_variant_ids
          then [\<lparr>vc_shop_id = sh_id shp, vc_variant_id = vid, vc_language_code = lang,
                 vc_title = get_or_none v ''title''\<rparr>]
          else [])))"

definition sync_language :: "env \<Rightarrow> shop \<Rightarrow> string \<Rightarrow> pykey set \<Rightarrow> pykey set
    \<Rightarrow> json list \<Rightarrow> json list \<Rightarrow> unit step" where
  "sync_language ev shp lang valid_product_ids valid_variant_ids
       localized_products localized_variants =
     seq (lift (mapE (localized_product_row shp lang valid_product_ids) localized_products)) (\<lambda>prs.
     seq (lift (mapE (localized_variant_row shp lang valid_variant_ids) localized_variants)) (\<lambda>vrs.
       let localized_product_rows = concat prs;
           localized_variant_rows = concat vrs;
           filtered_products = int (length localized_products) - int (length localized_product_rows);
           filtered_variants = int (length localized_variants) - int (length localized_variant_rows)
       in
     seq (print_lines ((if filtered_products > 0
                          then [FilteredProducts (sh_name shp) filtered_products] else []) @
                       (if filtered_variants > 0
                          then [FilteredVariants (sh_name shp) filtered_variants] else []))) (\<lambda>u.
     seq (bulk_upsert ev (ProductContentRows localized_product_rows)) (\<lambda>u.
     bulk_upsert ev (VariantContentRows localized_variant_rows)))))"

text \<open>The loop over the active languages, lines 315-365.\<close>

fun sync_languages :: "env \<Rightarrow> shop \<Rightarrow> string \<Rightarrow> string \<Rightarrow> string \<Rightarrow> pykey set \<Rightarrow> pykey set
    \<Rightarrow> string list \<Rightarrow> run_state \<Rightarrow> ((error + unit) \<times> run_state) option" where
  "sync_languages ev shp api_key api_secret base_lang vp vv [] s = Some (Inr (), s)"
| "sync_languages ev shp api_key api_secret base_lang vp vv (lang # langs) s =
     (if lang = base_lang then sync_languages ev shp api_key api_secret base_lang vp vv langs s
      else (case fetch_pair ev api_key api_secret lang of
              None \<Rightarrow> None
            | Some (Inl e) \<Rightarrow> Some (Inl e, s)
            | Some (Inr (localized_products, localized_variants)) \<Rightarrow>
                (case sync_language ev shp lang vp vv localized_products localized_variants s of
                   (Inl e, s') \<Rightarrow> Some (Inl e, s')
                 | (Inr u, s') \<Rightarrow>
                     sync_languages ev shp api_key api_secret base_lang vp vv langs s')))"

text \<open>
  The body of the \<^verbatim>\<open>try\<close>, lines 175-372. \<open>None\<close> is a run in which a fetch never
  returns.
\<close>

definition try_body :: "env \<Rightarrow> shop \<Rightarrow> nat \<Rightarrow> run_state \<Rightarrow> ((error + unit) \<times> run_state) option" where
  "try_body ev shp lid s =
     (case resolve ev shp of
        Inl e \<Rightarrow> Some (Inl e, s)
      | Inr (api_key, api_secret, base_lang, active_langs) \<Rightarrow>
          (case fetch_pair ev api_key api_secret base_lang of
             None \<Rightarrow> None
           | Some (Inl e) \<Rightarrow> Some (Inl e, s)
           | Some (Inr (products, variants)) \<Rightarrow>
               (case sync_base ev shp base_lang products variants s of
                  (Inl e, s1) \<Rightarrow> Some (Inl e, s1)
                | (Inr (vp, vv), s1) \<Rightarrow>
                    (case sync_languages ev shp api_key api_secret base_lang vp vv active_langs s1 of
                       None \<Rightarrow> None
                     | Some (Inl e, s2) \<Rightarrow> Some (Inl e, s2)
                     | Some (Inr u, s2) \<Rightarrow>
                         Some (on_store (\<lambda>w. store_call ev
                                 (UpdateLog lid ''success'' None (st_metrics s2))
                                 (update_log lid ''success'' None (st_metrics s2)) w) s2)))))"

definition zero_metrics :: metrics where
  "zero_metrics =
     \<lparr>products_fetched = 0, variants_fetched = 0, products_synced = 0, variants_synced = 0,
      products_deleted = 0, variants_deleted = 0, variants_filtered = 0\<rparr>"

text \<open>
  \<^verbatim>\<open>sync_shop\<close>, lines 151-382: the audit row is inserted, the body runs, and the handler
  of lines 374-382 writes the error and the metrics into the audit row and raises the
  exception again. An exception of the handler's own call takes the place of the one it
  handles.
\<close>

definition sync_shop :: "env \<Rightarrow> shop \<Rightarrow> world \<Rightarrow> ((error + unit) \<times> world) option" where
  "sync_shop ev shp w =
     (case store_call ev (InsertLog (sh_id shp)) (insert_log (sh_id shp)) w of
        (Inl e, w1) \<Rightarrow> Some (Inl e, w1)
      | (Inr lid, w1) \<Rightarrow>
          (case try_body ev shp lid \<lparr>st_metrics = zero_metrics, st_world = w1\<rparr> of
             None \<Rightarrow> None
           | Some (Inr u, s) \<Rightarrow> Some (Inr (), st_world s)
           | Some (Inl e, s) \<Rightarrow>
               (case store_call ev (UpdateLog lid ''error'' (Some (exc_text ev e)) (st_metrics s))
                       (update_log lid ''error'' (Some (exc_text ev e)) (st_metrics s))
                       (st_world s) of
                  (Inl e', w2) \<Rightarrow> Some (Inl e', w2)
                | (Inr u, w2) \<Rightarrow> Some (Inl e, w2))))"

section \<open>The fleet\<close>

text \<open>
  Lines 400-409. Every shop of the roster is submitted before any result is looked at
  (line 402), and the loop of lines 404-409 catches what a pipeline raised and prints it.
  The threads are not modelled: the pipelines run one after the other in the order of the
  roster, each on the store the one before left, and their results are looked at in
  that order. \<^verbatim>\<open>ThreadPoolExecutor(max_workers=0)\<close> raises \<^verbatim>\<open>ValueError\<close>.
\<close>

fun run_pipelines :: "env \<Rightarrow> shop list \<Rightarrow> world \<Rightarrow> ((shop \<times> (error + unit)) list \<times> world) option" where
  "run_pipelines ev [] w = Some ([], w)"
| "run_pipelines ev (shp # shops) w =
     (case sync_shop ev shp w of
        None \<Rightarrow> None
      | Some (r, w') \<Rightarrow>
          (case run_pipelines ev shops w' of
             None \<Rightarrow> None
           | Some (rs, w'') \<Rightarrow> Some ((shp, r) # rs, w'')))"

fun collect :: "env \<Rightarrow> (shop \<times> (error + unit)) list \<Rightarrow> line list" where
  "collect ev [] = []"
| "collect ev ((shp, Inl e) # rs) = SyncError (sh_name shp) (exc_text ev e) # collect ev rs"
| "collect ev ((shp, Inr u) # rs) = collect ev rs"

definition run_fleet :: "env \<Rightarrow> shop list \<Rightarrow> world
    \<Rightarrow> ((error + (shop \<times> (error + unit)) list) \<times> world) option" where
  "run_fleet ev shops w =
     (if shops = [] then Some (Inl (ValueError ''max_workers must be greater than 0''), w)
      else (case run_pipelines ev shops w of
              None \<Rightarrow> None
            | Some (rs, w') \<Rightarrow> Some (Inr rs, w'\<lparr>console := console w' @ collect ev rs\<rparr>)))"

section \<open>Vocabulary of the properties\<close>

text \<open>
  The key under which the loop of lines 115-119 files a variant: the hash key of its
  relation id, if the relation can be read and the id is true and hashable.
\<close>

definition rel_key :: "json \<Rightarrow> pykey option" where
  "rel_key v =
     (case relation_id v of
        Inl e \<Rightarrow> None
      | Inr pid \<Rightarrow> if truthy pid then (case hash_key pid of Inl e \<Rightarrow> None | Inr k \<Rightarrow> Some k)
                   else None)"

definition stripped :: "json \<Rightarrow> json" where
  "stripped v = (case py_pop v ''product'' of Inl e \<Rightarrow> v | Inr v' \<Rightarrow> v')"

definition variants_for :: "pykey \<Rightarrow> json list \<Rightarrow> json list" where
  "variants_for k vs = map stripped (filter (\<lambda>v. rel_key v = Some k) vs)"

fun rel_keys :: "json list \<Rightarrow> pykey list" where
  "rel_keys [] = []"
| "rel_keys (v # vs) =
     (case rel_key v of None \<Rightarrow> rel_keys vs | Some k \<Rightarrow> k # removeAll k (rel_keys vs))"

definition product_keys :: "json list \<Rightarrow> pykey set" where
  "product_keys ps =
     set (concat (map (\<lambda>p. case entity_key p of Inl e \<Rightarrow> [] | Inr k \<Rightarrow> [k]) ps))"

definition attached_product :: "json \<Rightarrow> json list \<Rightarrow> json" where
  "attached_product p vs =
     (case entity_key p of
        Inl e \<Rightarrow> p
      | Inr k \<Rightarrow> (case py_setitem p ''variants'' (JList (variants_for k vs)) of
                    Inl e \<Rightarrow> p | Inr p' \<Rightarrow> p'))"

definition orphan_line :: "string option \<Rightarrow> pykey \<Rightarrow> json list \<Rightarrow> line" where
  "orphan_line shop_name k vs =
     OrphanVariants (shop_prefix shop_name) (length (variants_for k vs)) k
       (map (\<lambda>v. get_or_none v ''id'') (variants_for k vs))"

definition wf_product :: "json \<Rightarrow> bool" where
  "wf_product p = (case entity_key p of Inl e \<Rightarrow> False | Inr k \<Rightarrow> True)"

definition wf_variant :: "json \<Rightarrow> bool" where
  "wf_variant v =
     ((case py_item v ''id'' of Inl e \<Rightarrow> False | Inr i \<Rightarrow> True) \<and>
      (case relation_id v of
         Inl e \<Rightarrow> False
       | Inr pid \<Rightarrow> truthy pid \<longrightarrow> (case hash_key pid of Inl e \<Rightarrow> False | Inr k \<Rightarrow> True)))"

text \<open>Sources and entities to run the program on.\<close>

definition failing_source :: "nat \<Rightarrow> nat \<Rightarrow> response" where
  "failing_source page attempt = Failed ''timed out''"

definition paged_batch :: "nat \<Rightarrow> nat \<Rightarrow> json list" where
  "paged_batch k page =
     replicate (if page \<le> 3 then LIMIT else if page = 4 then k else 0)
       (JDict [(''id'', JInt (int page))])"

definition paged_source :: "nat \<Rightarrow> nat \<Rightarrow> nat \<Rightarrow> response" where
  "paged_source k page attempt = Body (JDict [(''products'', JList (paged_batch k page))])"

fun is_dict :: "json \<Rightarrow> bool" where
  "is_dict (JDict kvs) = True"
| "is_dict x = False"

text \<open>The variants the join gives a product: those filed under the product's key.\<close>

definition attached_list :: "json \<Rightarrow> json list \<Rightarrow> json list" where
  "attached_list p vs = (case entity_key p of Inl e \<Rightarrow> [] | Inr k \<Rightarrow> variants_for k vs)"

text \<open>Two products and four variants: two of product 1, one of an unknown product 9,
  and one whose relation names no product; a variant whose relation is null; a shop.\<close>

definition mk_product :: "int \<Rightarrow> json" where
  "mk_product i = JDict [(''id'', JInt i), (''title'', JStr ''t'')]"

definition mk_variant :: "int \<Rightarrow> json \<Rightarrow> int \<Rightarrow> json" where
  "mk_variant i sku pid =
     JDict [(''id'', JInt i), (''sku'', sku),
            (''product'', JDict [(''resource'', JDict [(''id'', JInt pid)])])]"

definition loose_variant :: json where
  "loose_variant = JDict [(''id'', JInt 14), (''sku'', JStr ''d''), (''product'', JDict [])]"

definition null_relation_variant :: json where
  "null_relation_variant = JDict [(''id'', JInt 15), (''sku'', JStr ''e''), (''product'', JNull)]"

definition ex_products :: "json list" where
  "ex_products = [mk_product 1, mk_product 2]"

definition ex_variants :: "json list" where
  "ex_variants = [mk_variant 11 (JStr ''a'') 1, mk_variant 12 (JStr ''b'') 9,
                  mk_variant 13 (JStr ''c'') 1, loose_variant]"

definition ex_shop :: shop where
  "ex_shop = \<lparr>sh_id = JInt 1, sh_name = ''nl'', sh_tld = Some ''nl'',
     sh_languages = [\<lparr>lang_code = ''nl'', lang_is_active = True, lang_is_default = True\<rparr>,
                     \<lparr>lang_code = ''de'', lang_is_active = True, lang_is_default = False\<rparr>]\<rparr>"

definition empty_world :: world where
  "empty_world = \<lparr>tbl_products = [], tbl_product_content = [], tbl_variants = [],
     tbl_variant_content = [], tbl_sync_logs = [], calls = [], console = []\<rparr>"

definition start_state :: run_state where
  "start_state = \<lparr>st_metrics = zero_metrics, st_world = empty_world\<rparr>"

definition ex_attached :: attached where
  "ex_attached =
     \<lparr>att_products =
        [JDict [(''id'', JInt 1), (''title'', JStr ''t''),
                (''variants'', JList [JDict [(''id'', JInt 11), (''sku'', JStr ''a'')],
                                      JDict [(''id'', JInt 13), (''sku'', JStr ''c'')]])],
         JDict [(''id'', JInt 2), (''title'', JStr ''t''), (''variants'', JList [])]],
      att_variants =
        [JDict [(''id'', JInt 11), (''sku'', JStr ''a'')],
         JDict [(''id'', JInt 12), (''sku'', JStr ''b'')],
         JDict [(''id'', JInt 13), (''sku'', JStr ''c'')],
         loose_variant],
      att_warnings = [OrphanVariants ''[nl] '' 1 (KNum 9) [JInt 12]]\<rparr>"

text \<open>The keys of the hashable values of a list, and the keys the store holds for a shop.\<close>

definition keys_of :: "json list \<Rightarrow> pykey set" where
  "keys_of xs = set (concat (map (\<lambda>x. case hash_key x of Inl e \<Rightarrow> [] | Inr k \<Rightarrow> [k]) xs))"

definition stored_product_keys :: "json \<Rightarrow> world \<Rightarrow> pykey set" where
  "stored_product_keys sid w =
     keys_of (map pr_product_id (filter (\<lambda>r. pr_shop_id r = sid) (tbl_products w)))"

definition stored_variant_keys :: "json \<Rightarrow> world \<Rightarrow> pykey set" where
  "stored_variant_keys sid w =
     keys_of (map vr_variant_id (filter (\<lambda>r. vr_shop_id r = sid) (tbl_variants w)))"

definition variant_row_keys :: "variant_row list \<Rightarrow> pykey set" where
  "variant_row_keys vrows = keys_of (map vr_variant_id vrows)"

text \<open>An environment without faults, and a store that holds rows of two shops.\<close>

fun ex_text :: "error \<Rightarrow> string" where
  "ex_text (RequestException m) = m"
| "ex_text (KeyError k) = [CHR 39] @ k @ [CHR 39]"
| "ex_text (RuntimeError m) = m"
| "ex_text (StoreError m) = m"
| "ex_text e = ''error''"

definition ex_api :: "string \<Rightarrow> string \<Rightarrow> string \<Rightarrow> string \<Rightarrow> nat \<Rightarrow> nat \<Rightarrow> response" where
  "ex_api api_key api_secret lang kind page attempt =
     (if page = 1
      then Body (JDict [(kind, JList (if kind = ''products'' then ex_products else ex_variants))])
      else Body (JDict [(kind, JList [])]))"

definition ex_env :: env where
  "ex_env =
     \<lparr>getenv = (\<lambda>n. if n = ''LIGHTSPEED_API_KEY_NL'' then Some ''key''
                    else if n = ''LIGHTSPEED_API_SECRET_NL'' then Some ''secret'' else None),
      upper = (\<lambda>t. if t = ''nl'' then ''NL'' else t),
      api = ex_api,
      store_fault = (\<lambda>n. None),
      exc_text = ex_text\<rparr>"

definition stored_product :: "int \<Rightarrow> int \<Rightarrow> product_row" where
  "stored_product sid i =
     \<lparr>pr_shop_id = JInt sid, pr_product_id = JInt i, pr_visibility = JStr ''visible'',
      pr_image = JNull, pr_created_at = JNull, pr_updated_at = JNull\<rparr>"

definition stored_variant :: "int \<Rightarrow> int \<Rightarrow> int \<Rightarrow> variant_row" where
  "stored_variant sid pid i =
     \<lparr>vr_shop_id = JInt sid, vr_product_id = JInt pid, vr_variant_id = JInt i,
      vr_sku = JStr ''s'', vr_is_default = JBool True, vr_price_excl = JInt 1, vr_image = JNull\<rparr>"

definition stored_world :: world where
  "stored_world = empty_world
     \<lparr>tbl_products := [stored_product 1 1, stored_product 1 2, stored_product 2 1,
                        stored_product 1 3, stored_product 1 4],
      tbl_variants := [stored_variant 1 2 21, stored_variant 2 1 21, stored_variant 1 4 41]\<rparr>"

definition stored_state :: run_state where
  "stored_state = \<lparr>st_metrics = zero_metrics, st_world = stored_world\<rparr>"

definition fetched_products :: "json list" where
  "fetched_products = [mk_product 2, mk_product 3, mk_product 5]"

text \<open>The content rows of a secondary language, and the entities whose id is valid.\<close>

definition localized_content_row :: "shop \<Rightarrow> string \<Rightarrow> json \<Rightarrow> content_row" where
  "localized_content_row shp lang p = content_row_of shp lang (get_or_none p ''id'') p"

definition localized_variant_content_row :: "shop \<Rightarrow> string \<Rightarrow> json \<Rightarrow> variant_content_row" where
  "localized_variant_content_row shp lang v =
     \<lparr>vc_shop_id = sh_id shp, vc_variant_id = get_or_none v ''id'', vc_language_code = lang,
      vc_title = get_or_none v ''title''\<rparr>"

definition valid_entities :: "pykey set \<Rightarrow> json list \<Rightarrow> json list" where
  "valid_entities valid xs = filter (\<lambda>x. key_in (get_or_none x ''id'') valid) xs"

text \<open>The products of a secondary language.\<close>

definition localized_products :: "json list" where
  "localized_products = [mk_product 10, mk_product 11, mk_product 12]"

text \<open>The row of a variant of a product, and the variants a product carries.\<close>

definition variant_row_of :: "shop \<Rightarrow> json \<Rightarrow> json \<Rightarrow> variant_row" where
  "variant_row_of shp pid v =
     \<lparr>vr_shop_id = sh_id shp, vr_product_id = pid, vr_variant_id = get_or_none v ''id'',
      vr_sku = get_or_none v ''sku'', vr_is_default = get_or_none v ''isDefault'',
      vr_price_excl = get_or_none v ''priceExcl'', vr_image = get_or_none v ''image''\<rparr>"

text \<open>A variant that the join and the row building accept: a readable relation, an
  \<^verbatim>\<open>id\<close> that is hashable and a \<^verbatim>\<open>sku\<close>.\<close>

definition complete_variant :: "json \<Rightarrow> bool" where
  "complete_variant v =
     (wf_variant v \<and> (case py_item v ''sku'' of Inl e \<Rightarrow> False | Inr x \<Rightarrow> True) \<and>
      (case entity_key v of Inl e \<Rightarrow> False | Inr k \<Rightarrow> True))"

definition variants_of :: "json \<Rightarrow> json list" where
  "variants_of p = (case get_or_none p ''variants'' of JList l \<Rightarrow> l | _ \<Rightarrow> [])"

definition attached_variants :: "json list \<Rightarrow> json list \<Rightarrow> json list" where
  "attached_variants products variants = concat (map (\<lambda>p. attached_list p variants) products)"

text \<open>A record that has no value under a key: \<^verbatim>\<open>v[k]\<close> raises \<^verbatim>\<open>KeyError\<close>.\<close>

definition lacks :: "json \<Rightarrow> string \<Rightarrow> bool" where
  "lacks v k = (py_item v k = Inl (KeyError k))"

text \<open>A fetch whose only attached variant has no \<^verbatim>\<open>sku\<close>.\<close>

definition no_sku_variant :: json where
  "no_sku_variant =
     JDict [(''id'', JInt 11),
            (''product'', JDict [(''resource'', JDict [(''id'', JInt 1)])])]"

definition no_sku_api :: "string \<Rightarrow> string \<Rightarrow> string \<Rightarrow> string \<Rightarrow> nat \<Rightarrow> nat \<Rightarrow> response" where
  "no_sku_api api_key api_secret lang kind page attempt =
     Body (JDict [(kind, JList (if kind = ''products'' then [mk_product 1] else [no_sku_variant]))])"

definition no_sku_fetched :: "json list \<times> json list" where
  "no_sku_fetched =
     ([JDict [(''id'', JInt 1), (''title'', JStr ''t''), (''image'', JNull)]],
      [JDict [(''id'', JInt 11),
              (''product'', JDict [(''resource'', JDict [(''id'', JInt 1)])]),
              (''image'', JNull)]])"

definition no_sku_attached :: attached where
  "no_sku_attached =
     \<lparr>att_products =
        [JDict [(''id'', JInt 1), (''title'', JStr ''t''), (''image'', JNull),
                (''variants'', JList [JDict [(''id'', JInt 11), (''image'', JNull)]])]],
      att_variants = [JDict [(''id'', JInt 11), (''image'', JNull)]],
      att_warnings = []\<rparr>"

definition no_sku_env :: env where
  "no_sku_env = ex_env\<lparr>api := no_sku_api\<rparr>"

text \<open>An environment whose remote API fails every request.\<close>

definition down_env :: env where
  "down_env = ex_env\<lparr>api := (\<lambda>api_key api_secret lang kind. failing_source)\<rparr>"

text \<open>The metrics of a run that has fetched and joined, and nothing more.\<close>

definition joined_metrics :: "json list \<Rightarrow> json list \<Rightarrow> metrics" where
  "joined_metrics products variants =
     zero_metrics\<lparr>products_fetched := int (length products),
       variants_fetched := int (length variants),
       variants_filtered :=
         int (length variants) - (\<Sum>p\<leftarrow>products. int (length (attached_list p variants)))\<rparr>"

text \<open>A step that leaves the audit table as it is.\<close>

definition keeps_logs :: "'a step \<Rightarrow> bool" where
  "keeps_logs m =
     (\<forall>s r s'. m s = (r, s') \<longrightarrow> tbl_sync_logs (st_world s') = tbl_sync_logs (st_world s))"

text \<open>Products one of which has the id 0, and a variant whose \<^verbatim>\<open>resource\<close> is null.\<close>

definition zero_id_products :: "json list" where
  "zero_id_products = [JDict [(''id'', JInt 0)], JDict [(''id'', JInt 5)]]"

definition null_resource_variant :: json where
  "null_resource_variant =
     JDict [(''id'', JInt 22), (''sku'', JStr ''y''), (''product'', JDict [(''resource'', JNull)])]"

text \<open>The example entities as a fetch returns them, with the image normalized.\<close>

definition with_image :: "json \<Rightarrow> json" where
  "with_image p = (case normalize_entity p of Inl e \<Rightarrow> p | Inr p' \<Rightarrow> p')"

text \<open>
  An environment whose remote API fails every request and whose store fails every call
  after the first; one whose store fails its second call only; and the store after the
  audit row of the first run has been inserted.
\<close>

definition lost_store_env :: env where
  "lost_store_env =
     down_env\<lparr>store_fault := (\<lambda>n. if n = 0 then None else Some ''connection lost'')\<rparr>"

definition upsert_fault_env :: env where
  "upsert_fault_env =
     ex_env\<lparr>store_fault := (\<lambda>n. if n = 1 then Some ''connection lost'' else None)\<rparr>"

definition opened_world :: world where
  "opened_world =
     empty_world\<lparr>calls := [InsertLog (JInt 1)],
        tbl_sync_logs := [\<lparr>log_id = 1, log_shop_id = JInt 1, log_status = ''running'',
          log_completed = False, log_error_message = None, log_metrics = None\<rparr>]\<rparr>"

text \<open>A fetch whose only variant has a \<^verbatim>\<open>sku\<close> that is null.\<close>

definition null_sku_api :: "string \<Rightarrow> string \<Rightarrow> string \<Rightarrow> string \<Rightarrow> nat \<Rightarrow> nat \<Rightarrow> response" where
  "null_sku_api api_key api_secret lang kind page attempt =
     Body (JDict [(kind, JList (if kind = ''products'' then [mk_product 1]
                                else [mk_variant 11 JNull 1]))])"

definition null_sku_env :: env where
  "null_sku_env = ex_env\<lparr>api := null_sku_api\<rparr>"


section \<open>Properties of the fetcher\<close>

lemma upt_MAX_RETRIES: "[0 ..< MAX_RETRIES] = [0, 1, 2]"
  by (simp add: MAX_RETRIES_def upt_rec)

lemma request_page_all_fail:
  assumes "src page 0 = Failed m0" "src page 1 = Failed m1" "src page 2 = Failed m2"
  shows "request_page src page tr =
           (Inl (RequestException m2),
            tr @ [Request page 0, Sleep 1, Request page 1, Sleep 2, Request page 2])"
  using assms unfolding request_page_def upt_MAX_RETRIES by (simp add: MAX_RETRIES_def)

lemma request_page_first_ok:
  assumes "src page 0 = Body b"
  shows "request_page src page tr = (Inr (Body b), tr @ [Request page 0])"
  using assms unfolding request_page_def upt_MAX_RETRIES by simp

lemma fetch_pages_all_fail:
  assumes "src page 0 = Failed m0" "src page 1 = Failed m1" "src page 2 = Failed m2"
  shows "fetch_pages src key page acc tr =
           Some (Inl (RequestException m2),
                 tr @ [Request page 0, Sleep 1, Request page 1, Sleep 2, Request page 2])"
  using assms by (subst fetch_pages.simps) (simp add: request_page_all_fail)

lemma mapE_append:
  "mapE f (xs @ ys) = bindE (mapE f xs) (\<lambda>as. bindE (mapE f ys) (\<lambda>bs. Inr (as @ bs)))"
  by (induction xs) (auto simp: bindE_def split: sum.splits)

lemma mapE_length: "mapE f xs = Inr ys \<Longrightarrow> length ys = length xs"
  by (induction xs arbitrary: ys) (auto simp: bindE_def split: sum.splits)

lemma normalize_entity_dict: "normalize_entity (JDict kvs) =
   Inr (JDict (AList.update ''image'' (normalize_image (get_or_none (JDict kvs) ''image'')) kvs))"
  by (simp add: normalize_entity_def bindE_def split: option.splits)

lemma mapE_total:
  assumes "\<And>x. x \<in> set xs \<Longrightarrow> \<exists>y. f x = Inr y"
  shows "\<exists>ys. mapE f xs = Inr ys"
  using assms by (induction xs) (fastforce simp: bindE_def)+

lemma fetch_pages_full:
  assumes "src page 0 = Body body" "py_get body key (JList []) = Inr (JList b)"
    "mapE normalize_entity b = Inr ps" "length b = LIMIT" "page' = page + 1"
  shows "fetch_pages src key page acc tr = fetch_pages src key page' (acc @ ps) (tr @ [Request page 0])"
  using assms mapE_length[OF assms(3)]
  by (subst fetch_pages.simps) (auto simp add: request_page_first_ok LIMIT_def)

lemma fetch_pages_last:
  assumes "src page 0 = Body body" "py_get body key (JList []) = Inr (JList b)"
    "mapE normalize_entity b = Inr ps" "length b < LIMIT"
  shows "fetch_pages src key page acc tr = Some (Inr (acc @ ps), tr @ [Request page 0])"
  using assms mapE_length[OF assms(3)]
  by (subst fetch_pages.simps) (auto simp add: request_page_first_ok LIMIT_def)

lemma bindE_simps [simp]:
  "bindE (Inl e) f = Inl e" "bindE (Inr x) f = f x"
  by (simp_all add: bindE_def)

lemma normalize_total:
  assumes "\<forall>x\<in>set b. is_dict x"
  shows "\<exists>ps. mapE normalize_entity b = Inr ps"
proof (rule mapE_total)
  fix x assume "x \<in> set b"
  with assms have "is_dict x" by simp
  then obtain kvs where "x = JDict kvs" by (cases x) auto
  then show "\<exists>y. normalize_entity x = Inr y" by (simp add: normalize_entity_dict)
qed

lemma fetch_pages_retry_exhausted:
  assumes "\<And>a. a < MAX_RETRIES \<Longrightarrow> src page a = Failed (msg a)"
  shows "fetch_pages src key page acc tr =
           Some (Inl (RequestException (msg (MAX_RETRIES - 1))),
                 tr @ [Request page 0, Sleep 1, Request page 1, Sleep 2, Request page 2])"
  using assms[of 0] assms[of 1] assms[of 2]
  by (simp add: fetch_pages_all_fail MAX_RETRIES_def)

lemma fetch_pages_four:
  assumes bodies: "\<And>p. p \<in> {1, 2, 3, 4} \<Longrightarrow>
       src p 0 = Body (body p) \<and> py_get (body p) key (JList []) = Inr (JList (b p))"
    and full: "\<And>p. p \<in> {1, 2, 3} \<Longrightarrow> length (b p) = LIMIT"
    and last: "length (b 4) < LIMIT"
    and dicts: "\<And>p. p \<in> {1, 2, 3, 4} \<Longrightarrow> \<forall>x\<in>set (b p). is_dict x"
  shows "\<exists>ps. mapE normalize_entity (b 1 @ b 2 @ b 3 @ b 4) = Inr ps
      \<and> fetch_pages src key 1 [] [] =
           Some (Inr ps, [Request 1 0, Request 2 0, Request 3 0, Request 4 0])"
proof -
  obtain p1 where p1: "mapE normalize_entity (b 1) = Inr p1" using normalize_total[OF dicts[of 1]] by auto
  obtain p2 where p2: "mapE normalize_entity (b 2) = Inr p2" using normalize_total[OF dicts[of 2]] by auto
  obtain p3 where p3: "mapE normalize_entity (b 3) = Inr p3" using normalize_total[OF dicts[of 3]] by auto
  obtain p4 where p4: "mapE normalize_entity (b 4) = Inr p4" using normalize_total[OF dicts[of 4]] by auto
  have s1: "fetch_pages src key 1 [] [] =
            fetch_pages src key 2 ([] @ p1) ([] @ [Request 1 0])"
    by (rule fetch_pages_full[where body="body 1" and b="b 1"])
       (use bodies[of 1] full[of 1] p1 in simp_all)
  have s2: "fetch_pages src key 2 ([] @ p1) ([] @ [Request 1 0]) =
            fetch_pages src key 3 (([] @ p1) @ p2) (([] @ [Request 1 0]) @ [Request 2 0])"
    by (rule fetch_pages_full[where body="body 2" and b="b 2"])
       (use bodies[of 2] full[of 2] p2 in simp_all)
  have s3: "fetch_pages src key 3 (([] @ p1) @ p2) (([] @ [Request 1 0]) @ [Request 2 0]) =
            fetch_pages src key 4 ((([] @ p1) @ p2) @ p3)
              ((([] @ [Request 1 0]) @ [Request 2 0]) @ [Request 3 0])"
    by (rule fetch_pages_full[where body="body 3" and b="b 3"])
       (use bodies[of 3] full[of 3] p3 in simp_all)
  have s4: "fetch_pages src key 4 ((([] @ p1) @ p2) @ p3)
              ((([] @ [Request 1 0]) @ [Request 2 0]) @ [Request 3 0]) =
            Some (Inr (((([] @ p1) @ p2) @ p3) @ p4),
                  ((([] @ [Request 1 0]) @ [Request 2 0]) @ [Request 3 0]) @ [Request 4 0])"
    by (rule fetch_pages_last[where body="body 4" and b="b 4"])
       (use bodies[of 4] last p4 in simp_all)
  have f: "fetch_pages src key 1 [] [] =
           Some (Inr (p1 @ p2 @ p3 @ p4), [Request 1 0, Request 2 0, Request 3 0, Request 4 0])"
    using s1[THEN trans, OF s2[THEN trans, OF s3[THEN trans, OF s4]]] by simp
  have "mapE normalize_entity (b 1 @ b 2 @ b 3 @ b 4) = Inr (p1 @ p2 @ p3 @ p4)"
    using p1 p2 p3 p4 by (simp add: mapE_append)
  with f show ?thesis by simp
qed

text \<open>
  What the fetch does when every attempt at a page fails with a transport error or a
  timeout: it makes exactly \<open>MAX_RETRIES = 3\<close> requests for that page and sleeps
  \<open>2 ^ attempt\<close> seconds after the failures of attempts 0 and 1, that is 1s and 2s; the
  third failure is raised at once. The exception of the last attempt is the result of the
  whole fetch, whatever had been collected from the pages before (\<open>acc\<close>): no entity
  is returned.
\<close>

theorem retry_exhaustion:
  assumes "\<And>a. a < MAX_RETRIES \<Longrightarrow> src page a = Failed (msg a)"
  shows "\<exists>tr'. fetch_pages src key page acc tr =
             Some (Inl (RequestException (msg (MAX_RETRIES - 1))), tr @ tr')
       \<and> tr' = [Request page 0, Sleep (2 ^ 0), Request page 1, Sleep (2 ^ 1), Request page 2]
       \<and> length (filter is_request tr') = MAX_RETRIES
       \<and> sleeps tr' = [1, 2]"
  using fetch_pages_retry_exhausted[of src page msg key acc tr, OF assms]
  by (simp add: MAX_RETRIES_def)

text \<open>The theorem at a source that fails every request.\<close>

theorem retry_exhaustion_witness:
  "fetch_products failing_source =
     Some (Inl (RequestException ''timed out''),
           [Request 1 0, Sleep 1, Request 1 1, Sleep 2, Request 1 2])"
  using retry_exhaustion[of failing_source 1 "\<lambda>a. ''timed out''" "''products''" "[]" "[]"]
  by (simp add: failing_source_def fetch_products_def)

text \<open>
  Claim C4 asks for three attempts with the backoff delays 1s, 2s and 4s before the call
  raises, and so do the comments of lines 56 and 93 (\<^verbatim>\<open>exponential backoff: 1s, 2s, 4s\<close>).
  The program falls short of both: on a source that fails every request, the fetch makes
  its three attempts, sleeps 1s and 2s, and raises at the third failure; the delay of 4s
  never happens. The exception of the last attempt is raised and no entity is returned,
  as the claim says.
\<close>

theorem retry_delays_at_failing_source:
  "fetch_variants failing_source =
     Some (Inl (RequestException ''timed out''),
           [Request 1 0, Sleep 1, Request 1 1, Sleep 2, Request 1 2])
   \<and> sleeps [Request 1 0, Sleep 1, Request 1 1, Sleep 2, Request 1 2] \<noteq> [1, 2, 4]"
  using fetch_pages_retry_exhausted[of failing_source 1 "\<lambda>a. ''timed out''" "''variants''" "[]" "[]"]
  by (simp add: failing_source_def fetch_variants_def)

text \<open>
  Claim C5, as the program has it. On a source whose first three pages hold \<open>LIMIT\<close>
  entities each and whose fourth page holds \<open>k < LIMIT\<close> entities, every request
  answered at the first attempt, the fetch returns the \<open>3 * LIMIT + k\<close> entities of the
  four pages (each with its image normalized) and sends exactly four page requests. This
  holds for \<open>k = 0\<close> too: the empty fourth page has to be requested to be seen, and no
  fifth request is sent.
\<close>

theorem pagination_termination:
  assumes "\<And>p. p \<in> {1, 2, 3, 4} \<Longrightarrow>
       src p 0 = Body (body p) \<and> py_get (body p) key (JList []) = Inr (JList (b p))"
    and "\<And>p. p \<in> {1, 2, 3} \<Longrightarrow> length (b p) = LIMIT"
    and "length (b 4) = k" and "k < LIMIT"
    and "\<And>p. p \<in> {1, 2, 3, 4} \<Longrightarrow> \<forall>x\<in>set (b p). is_dict x"
  shows "\<exists>ps tr. fetch_pages src key 1 [] [] = Some (Inr ps, tr)
       \<and> mapE normalize_entity (b 1 @ b 2 @ b 3 @ b 4) = Inr ps
       \<and> length ps = 3 * LIMIT + k
       \<and> tr = [Request 1 0, Request 2 0, Request 3 0, Request 4 0]
       \<and> length (filter is_request tr) = 4"
proof -
  from fetch_pages_four[of src body key b, OF assms(1) assms(2) _ assms(5)] assms(3,4)
  obtain ps where ps: "mapE normalize_entity (b 1 @ b 2 @ b 3 @ b 4) = Inr ps"
    and f: "fetch_pages src key 1 [] [] = Some (Inr ps, [Request 1 0, Request 2 0, Request 3 0, Request 4 0])"
    by auto
  from mapE_length[OF ps] assms(2)[of 1] assms(2)[of 2] assms(2)[of 3] assms(3)
  have "length ps = 3 * LIMIT + k" by simp
  with ps f show ?thesis by simp
qed

lemma paged_source_bodies:
  "p \<in> {1, 2, 3, 4} \<Longrightarrow>
     paged_source k p 0 = Body (JDict [(''products'', JList (paged_batch k p))]) \<and>
     py_get (JDict [(''products'', JList (paged_batch k p))]) ''products'' (JList []) =
       Inr (JList (paged_batch k p))"
  by (simp add: paged_source_def)

lemma paged_batch_full: "p \<in> {1, 2, 3} \<Longrightarrow> length (paged_batch k p) = LIMIT"
  by (auto simp add: paged_batch_def)

lemma paged_batch_last: "length (paged_batch k 4) = k"
  by (simp add: paged_batch_def)

lemma paged_batch_dicts: "p \<in> {1, 2, 3, 4} \<Longrightarrow> \<forall>x\<in>set (paged_batch k p). is_dict x"
  by (simp add: paged_batch_def)

text \<open>The theorem at a source of pages of 250, 250, 250 and 7 entities.\<close>

theorem pagination_termination_witness:
  "\<exists>ps. fetch_products (paged_source 7) =
          Some (Inr ps, [Request 1 0, Request 2 0, Request 3 0, Request 4 0])
      \<and> length ps = 757"
proof -
  have k: "(7::nat) < LIMIT" by (simp add: LIMIT_def)
  from pagination_termination[of "paged_source 7" _ "''products''" "paged_batch 7" 7,
      OF paged_source_bodies paged_batch_full paged_batch_last k paged_batch_dicts]
  show ?thesis by (auto simp add: fetch_products_def LIMIT_def)
qed

text \<open>
  Claim C5 as stated asks for exactly three page requests when \<open>k = 0\<close>. On a source
  of three full pages followed by an empty one the fetch sends four.
\<close>

theorem empty_last_page_counterexample:
  "\<exists>ps. fetch_products (paged_source 0) =
          Some (Inr ps, [Request 1 0, Request 2 0, Request 3 0, Request 4 0])
      \<and> length ps = 750
      \<and> length (filter is_request [Request 1 0, Request 2 0, Request 3 0, Request 4 0]) \<noteq> 3"
proof -
  have k: "length (paged_batch 0 4) < LIMIT" by (simp add: LIMIT_def paged_batch_def)
  from fetch_pages_four[of "paged_source 0" _ "''products''" "paged_batch 0",
      OF paged_source_bodies paged_batch_full k paged_batch_dicts]
  obtain ps where ps: "mapE normalize_entity (paged_batch 0 1 @ paged_batch 0 2 @ paged_batch 0 3 @ paged_batch 0 4) = Inr ps"
    and f: "fetch_pages (paged_source 0) ''products'' 1 [] [] =
          Some (Inr ps, [Request 1 0, Request 2 0, Request 3 0, Request 4 0])" by auto
  from mapE_length[OF ps] have "length ps = 750" by (simp add: paged_batch_def LIMIT_def)
  with f show ?thesis by (simp add: fetch_products_def)
qed

section \<open>Properties of the join\<close>

lemma bindE_eq_Inr: "bindE m f = Inr y \<longleftrightarrow> (\<exists>x. m = Inr x \<and> f x = Inr y)"
  by (cases m) auto

lemma mapE_eq_map:
  assumes "\<And>x. x \<in> set xs \<Longrightarrow> f x = Inr (g x)"
  shows "mapE f xs = Inr (map g xs)"
  using assms by (induction xs) auto

lemma relation_id_dict: "relation_id v = Inr pid \<Longrightarrow> \<exists>kvs. v = JDict kvs"
  by (cases v) (auto simp: relation_id_def)

lemma lookup_list_append_to:
  "lookup_list (append_to bp k v) k' = (if k' = k then lookup_list bp k @ [v] else lookup_list bp k')"
  by (simp add: lookup_list_def append_to_def update_conv')

lemma keys_append_to:
  "map fst (append_to bp k v) = (if k \<in> set (map fst bp) then map fst bp else map fst bp @ [k])"
  by (simp add: append_to_def update_keys)

lemma group_variants_result:
  assumes "group_variants vs bp = Inr (bp', vs')"
  shows "(\<forall>k. lookup_list bp' k = lookup_list bp k @ variants_for k vs)
       \<and> map fst bp' = map fst bp @ filter (\<lambda>k. k \<notin> set (map fst bp)) (rel_keys vs)
       \<and> vs' = map (\<lambda>v. if rel_key v = None then v else stripped v) vs"
  using assms
proof (induction vs arbitrary: bp bp' vs')
  case Nil
  then show ?case by (simp add: variants_for_def)
next
  case (Cons v vs)
  show ?case
  proof (cases "rel_key v")
    case None
    with Cons.prems obtain bp1 vs1 where g: "group_variants vs bp = Inr (bp1, vs1)"
      and r: "bp' = bp1" "vs' = v # vs1"
      by (auto simp: rel_key_def split: sum.splits if_splits prod.splits)
    from Cons.IH[OF g] None r show ?thesis by (simp add: variants_for_def)
  next
    case (Some k)
    with Cons.prems obtain bp1 vs1 where g: "group_variants vs (append_to bp k (stripped v)) = Inr (bp1, vs1)"
      and r: "bp' = bp1" "vs' = stripped v # vs1"
      by (auto simp: rel_key_def stripped_def split: sum.splits if_splits prod.splits)
    from Cons.IH[OF g] Some r show ?thesis
      by (auto simp add: variants_for_def lookup_list_append_to keys_append_to
            removeAll_filter_not_eq intro!: filter_cong)
  qed
qed


lemma rel_keys_distinct: "distinct (rel_keys vs)"
  by (induction vs) (auto split: option.splits simp: distinct_removeAll)

lemma rel_keys_set: "set (rel_keys vs) = {k. \<exists>v\<in>set vs. rel_key v = Some k}"
  by (induction vs) (auto split: option.splits)

lemma id_set_product_keys: "id_set ps = Inr S \<Longrightarrow> S = product_keys ps"
  unfolding id_set_def product_keys_def
  by (induction ps arbitrary: S) (auto simp: bindE_eq_Inr split: sum.splits)

lemma wf_product_iff: "wf_product p \<longleftrightarrow> (\<exists>k. entity_key p = Inr k)"
  by (cases "entity_key p") (auto simp: wf_product_def)

lemma wf_products_id_set: "\<forall>p\<in>set ps. wf_product p \<Longrightarrow> id_set ps = Inr (product_keys ps)"
proof -
  assume wf: "\<forall>p\<in>set ps. wf_product p"
  then have "\<exists>ks. mapE entity_key ps = Inr ks"
    by (intro mapE_total) (auto simp: wf_product_iff)
  then obtain ks where "mapE entity_key ps = Inr ks" ..
  then have i: "id_set ps = Inr (set ks)" by (simp add: id_set_def)
  from id_set_product_keys[OF i] i show ?thesis by simp
qed

lemma mapE_eq_Inr: "mapE f xs = Inr ys \<longleftrightarrow> list_all2 (\<lambda>x y. f x = Inr y) xs ys"
  by (induction xs arbitrary: ys) (auto simp: bindE_eq_Inr list_all2_Cons1)


lemma entity_key_dict: "entity_key p = Inr k \<Longrightarrow> \<exists>kvs. p = JDict kvs"
  by (cases p) (auto simp: entity_key_def)

lemma set_variants_result:
  assumes "set_variants bp p = Inr p'" "\<forall>k. lookup_list bp k = variants_for k vs"
  shows "p' = attached_product p vs"
  using assms entity_key_dict[of p]
  by (auto simp: set_variants_def attached_product_def bindE_eq_Inr)

lemma set_variants_total:
  assumes "wf_product p"
  shows "\<exists>p'. set_variants bp p = Inr p'"
  using assms entity_key_dict[of p]
  by (auto simp: set_variants_def wf_product_iff)

lemma py_item_get_or_none: "py_item v k = Inr i \<Longrightarrow> get_or_none v k = i"
  by (cases v) (auto split: option.splits)

lemma ids_result: "mapE (\<lambda>v. py_item v k) l = Inr ids \<Longrightarrow> ids = map (\<lambda>v. get_or_none v k) l"
  by (induction l arbitrary: ids) (auto simp: bindE_eq_Inr py_item_get_or_none)

lemma warnings_result:
  assumes "mapE (orphan_report n S) es = Inr ws" "\<forall>(k, l)\<in>set es. l = variants_for k vs"
  shows "concat ws = map (\<lambda>k. orphan_line n k vs) (filter (\<lambda>k. k \<notin> S) (map fst es))"
  using assms
proof (induction es arbitrary: ws)
  case Nil
  then show ?case by simp
next
  case (Cons e es)
  obtain k l where e: "e = (k, l)" by (cases e)
  from Cons.prems e show ?case
    by (auto simp: bindE_eq_Inr orphan_line_def dest!: ids_result Cons.IH split: if_splits)
qed

lemma entry_lookup:
  assumes "(k, l) \<in> set bp" "distinct (map fst bp)"
  shows "lookup_list bp k = l"
  using assms by (simp add: lookup_list_def)

lemma attach_variants_result:
  assumes "attach_variants ps vs n = Inr a"
  shows "att_products a = map (\<lambda>p. attached_product p vs) ps
       \<and> att_warnings a =
           map (\<lambda>k. orphan_line n k vs) (filter (\<lambda>k. k \<notin> product_keys ps) (rel_keys vs))
       \<and> att_variants a = map (\<lambda>v. if rel_key v = None then v else stripped v) vs"
proof -
  from assms obtain bp vs' S ps' ws where
    g: "group_variants vs [] = Inr (bp, vs')" and
    S: "id_set ps = Inr S" and
    p: "mapE (set_variants bp) ps = Inr ps'" and
    w: "mapE (orphan_report n S) bp = Inr ws" and
    a: "a = \<lparr>att_products = ps', att_variants = vs', att_warnings = concat ws\<rparr>"
    by (auto simp: attach_variants_def bindE_eq_Inr split: sum.splits prod.splits)
  from group_variants_result[OF g] have
    look: "\<forall>k. lookup_list bp k = variants_for k vs" and
    keys: "map fst bp = rel_keys vs" and
    vs': "vs' = map (\<lambda>v. if rel_key v = None then v else stripped v) vs"
    by (simp_all add: lookup_list_def)
  have d: "distinct (map fst bp)" by (simp add: keys rel_keys_distinct)
  have ent: "\<forall>(k, l)\<in>set bp. l = variants_for k vs"
    using entry_lookup[OF _ d] look by auto
  have "ps' = map (\<lambda>p. attached_product p vs) ps"
    using p set_variants_result[OF _ look]
    by (auto simp: mapE_eq_Inr list_all2_conv_all_nth intro!: nth_equalityI)
  moreover have "concat ws = map (\<lambda>k. orphan_line n k vs) (filter (\<lambda>k. k \<notin> product_keys ps) (rel_keys vs))"
    using warnings_result[OF w ent] id_set_product_keys[OF S] keys by simp
  ultimately show ?thesis using a vs' by simp
qed

lemma stripped_has_id:
  assumes "wf_variant v"
  shows "\<exists>i. py_item (stripped v) ''id'' = Inr i"
  using assms
  by (cases v) (auto simp: wf_variant_def stripped_def delete_conv' split: sum.splits option.splits)

lemma group_variants_total:
  assumes "\<forall>v\<in>set vs. wf_variant v"
  shows "\<exists>r. group_variants vs bp = Inr r"
  using assms
proof (induction vs arbitrary: bp)
  case Nil
  then show ?case by simp
next
  case (Cons v vs)
  then have wf: "wf_variant v" and rest: "\<forall>v\<in>set vs. wf_variant v" by simp_all
  from wf obtain kvs where v: "v = JDict kvs"
    by (cases v) (auto simp: wf_variant_def)
  from wf obtain pid where r: "relation_id v = Inr pid"
    and h: "truthy pid \<longrightarrow> (\<exists>k. hash_key pid = Inr k)"
    by (auto simp: wf_variant_def split: sum.splits)
  show ?case
  proof (cases "truthy pid")
    case True
    with h obtain k where k: "hash_key pid = Inr k" by auto
    from Cons.IH[OF rest, of "append_to bp k (JDict (AList.delete ''product'' kvs))"]
    obtain r' where "group_variants vs (append_to bp k (JDict (AList.delete ''product'' kvs))) = Inr r'" ..
    then show ?thesis using r True k v by (cases r') simp
  next
    case False
    from Cons.IH[OF rest, of bp] obtain r' where "group_variants vs bp = Inr r'" ..
    then show ?thesis using r False by (cases r') simp
  qed
qed

lemma warnings_total:
  assumes "\<forall>(k, l)\<in>set es. \<forall>v\<in>set l. \<exists>i. py_item v ''id'' = Inr i"
  shows "\<exists>ws. mapE (orphan_report n S) es = Inr ws"
proof (rule mapE_total)
  fix e assume e: "e \<in> set es"
  obtain k l where kl: "e = (k, l)" by (cases e)
  with e assms have "\<forall>v\<in>set l. \<exists>i. py_item v ''id'' = Inr i" by auto
  then have "\<exists>ids. mapE (\<lambda>v. py_item v ''id'') l = Inr ids" by (intro mapE_total) auto
  then show "\<exists>y. orphan_report n S e = Inr y" by (auto simp: kl)
qed

lemma attach_variants_total:
  assumes "\<forall>p\<in>set ps. wf_product p" "\<forall>v\<in>set vs. wf_variant v"
  shows "\<exists>a. attach_variants ps vs n = Inr a"
proof -
  from group_variants_total[OF assms(2)] obtain bp vs' where
    g: "group_variants vs [] = Inr (bp, vs')" by fastforce
  from group_variants_result[OF g] have
    look: "\<forall>k. lookup_list bp k = variants_for k vs" and
    keys: "map fst bp = rel_keys vs"
    by (simp_all add: lookup_list_def)
  have d: "distinct (map fst bp)" by (simp add: keys rel_keys_distinct)
  have ent: "\<forall>(k, l)\<in>set bp. l = variants_for k vs"
    using entry_lookup[OF _ d] look by auto
  have S: "id_set ps = Inr (product_keys ps)" by (rule wf_products_id_set[OF assms(1)])
  have "\<exists>ps'. mapE (set_variants bp) ps = Inr ps'"
    using assms(1) by (intro mapE_total set_variants_total) auto
  then obtain ps' where p: "mapE (set_variants bp) ps = Inr ps'" ..
  have "\<forall>(k, l)\<in>set bp. \<forall>v\<in>set l. \<exists>i. py_item v ''id'' = Inr i"
    using ent assms(2) stripped_has_id by (fastforce simp: variants_for_def)
  from warnings_total[OF this] obtain ws where
    w: "mapE (orphan_report n (product_keys ps)) bp = Inr ws" by blast
  show ?thesis by (simp add: attach_variants_def g S p w)
qed

text \<open>
  Claim C2, as the program has it. The products are dictionaries with a hashable \<^verbatim>\<open>id\<close>
  (\<open>wf_product\<close>); the variants are dictionaries with an \<^verbatim>\<open>id\<close> whose relation can be
  read, that is, \<^verbatim>\<open>product\<close> and \<^verbatim>\<open>resource\<close> are dictionaries where they are present,
  and whose relation id is hashable where it is true (\<open>wf_variant\<close>). A variant is filed
  under a key only if its relation id is true in the sense of line 117, \<^verbatim>\<open>if pid:\<close>
  (the last conjunct: \<open>rel_key v = Some k\<close> means that the relation id is read, is true,
  and hashes to \<open>k\<close>); a relation id that is null, 0 or empty files the variant nowhere.
  Then \<^verbatim>\<open>attach_variants\<close> returns, and returns every input product, in order, with a
  \<^verbatim>\<open>variants\<close> list that holds exactly the input variants filed under the product's id,
  each without its relation field (the list is empty if there is none). The lines printed
  are one line for each key that variants are filed under and no product has, with the
  number and the ids of the variants filed under it. So a variant whose true relation id
  is the id of no input product is under the key of no product, hence in no list, and its
  key is reported; the call does not raise.
\<close>

theorem attach_variants_joins:
  assumes "\<forall>p\<in>set products. wf_product p" and "\<forall>v\<in>set variants. wf_variant v"
  shows "\<exists>a. attach_variants products variants shop_name = Inr a
     \<and> att_products a = map (\<lambda>p. attached_product p variants) products
     \<and> att_warnings a =
         map (\<lambda>k. orphan_line shop_name k variants)
           (filter (\<lambda>k. k \<notin> product_keys products) (rel_keys variants))
     \<and> (\<forall>v\<in>set variants. \<forall>k. rel_key v = Some k \<longrightarrow> k \<notin> product_keys products \<longrightarrow>
           orphan_line shop_name k variants \<in> set (att_warnings a) \<and>
           (\<forall>p\<in>set products. entity_key p \<noteq> Inr k))
     \<and> (\<forall>v\<in>set variants. \<forall>k.
           (rel_key v = Some k) =
           (\<exists>pid. relation_id v = Inr pid \<and> truthy pid \<and> hash_key pid = Inr k))"
proof -
  from attach_variants_total[OF assms] obtain a where
    a: "attach_variants products variants shop_name = Inr a" ..
  note r = attach_variants_result[OF a]
  have "orphan_line shop_name k variants \<in> set (att_warnings a)"
    if "v \<in> set variants" "rel_key v = Some k" "k \<notin> product_keys products" for v k
    using that r by (auto simp: rel_keys_set)
  moreover have "entity_key p \<noteq> Inr k"
    if "k \<notin> product_keys products" "p \<in> set products" for k p
    using that by (auto simp: product_keys_def)
  moreover have "(rel_key v = Some k) =
           (\<exists>pid. relation_id v = Inr pid \<and> truthy pid \<and> hash_key pid = Inr k)" for v k
    by (auto simp: rel_key_def split: sum.splits)
  ultimately show ?thesis using a r by blast
qed

lemmas example_defs =
  ex_products_def ex_variants_def mk_product_def mk_variant_def loose_variant_def
  wf_product_def wf_variant_def entity_key_def relation_id_def rel_key_def stripped_def
  variants_for_def attached_product_def orphan_line_def product_keys_def

text \<open>The theorem at the two products and four variants above.\<close>

theorem attach_variants_joins_witness:
  "\<exists>a. attach_variants ex_products ex_variants (Some ''nl'') = Inr a
     \<and> att_products a =
         [JDict [(''id'', JInt 1), (''title'', JStr ''t''),
                 (''variants'', JList [JDict [(''id'', JInt 11), (''sku'', JStr ''a'')],
                                       JDict [(''id'', JInt 13), (''sku'', JStr ''c'')]])],
          JDict [(''id'', JInt 2), (''title'', JStr ''t''), (''variants'', JList [])]]
     \<and> att_warnings a = [OrphanVariants ''[nl] '' 1 (KNum 9) [JInt 12]]"
proof -
  have 1: "\<forall>p\<in>set ex_products. wf_product p" by (simp add: example_defs)
  have 2: "\<forall>v\<in>set ex_variants. wf_variant v" by (simp add: example_defs)
  from attach_variants_joins[OF 1 2, of "Some ''nl''"] obtain a where
    a: "attach_variants ex_products ex_variants (Some ''nl'') = Inr a"
       "att_products a = map (\<lambda>p. attached_product p ex_variants) ex_products"
       "att_warnings a =
         map (\<lambda>k. orphan_line (Some ''nl'') k ex_variants)
           (filter (\<lambda>k. k \<notin> product_keys ex_products) (rel_keys ex_variants))"
    by blast
  show ?thesis using a by (simp add: example_defs)
qed

text \<open>
  Claim C2 as stated speaks of every list of products and of variants, and of the variants
  whose relation id equals the product's id. Among the products with the ids 0 and 5, a
  variant whose relation id is 0 is not in the list of product 0, which is empty, and no
  line reports it: line 117 passes over a relation id that is not true. And on a variant
  whose \<^verbatim>\<open>resource\<close> is null the join raises \<^verbatim>\<open>AttributeError\<close> and returns nothing.
\<close>

theorem zero_relation_counterexample:
  "attach_variants zero_id_products [mk_variant 21 (JStr ''z'') 0] (Some ''nl'') =
     Inr \<lparr>att_products = [JDict [(''id'', JInt 0), (''variants'', JList [])],
                          JDict [(''id'', JInt 5), (''variants'', JList [])]],
          att_variants = [mk_variant 21 (JStr ''z'') 0],
          att_warnings = []\<rparr>
   \<and> relation_id (mk_variant 21 (JStr ''z'') 0) = Inr (JInt 0)
   \<and> attach_variants zero_id_products [null_resource_variant] (Some ''nl'') =
     Inl (AttributeError ''NoneType'' ''get'')"
  by (simp add: attach_variants_def zero_id_products_def mk_variant_def null_resource_variant_def
      relation_id_def id_set_def entity_key_def set_variants_def lookup_list_def)

lemma removeAll_count: "length xs = length (removeAll v xs) + count_list xs v"
  by (induction xs) auto

lemma rel_key_falsy: "relation_id v = Inr pid \<Longrightarrow> \<not> truthy pid \<Longrightarrow> rel_key v = None"
  by (simp add: rel_key_def)

lemma variants_for_removeAll:
  "rel_key v = None \<Longrightarrow> variants_for k (removeAll v vs) = variants_for k vs"
  by (induction vs) (auto simp: variants_for_def)

lemma group_variants_removeAll:
  assumes "group_variants vs bp = Inr (bp', vs')" "relation_id v = Inr pid" "\<not> truthy pid"
  shows "\<exists>vs''. group_variants (removeAll v vs) bp = Inr (bp', vs'')"
  using assms(1)
proof (induction vs arbitrary: bp bp' vs')
  case Nil
  then show ?case by simp
next
  case (Cons w ws)
  show ?case
  proof (cases "w = v")
    case True
    with Cons.prems assms(2,3) obtain vs1 where "group_variants ws bp = Inr (bp', vs1)"
      by (auto split: sum.splits prod.splits)
    from Cons.IH[OF this] True show ?thesis by simp
  next
    case False
    show ?thesis
    proof (cases "rel_key w")
      case None
      with Cons.prems obtain vs1 where g: "group_variants ws bp = Inr (bp', vs1)"
        by (auto simp: rel_key_def split: sum.splits if_splits prod.splits)
      from Cons.IH[OF g] obtain vs2 where "group_variants (removeAll v ws) bp = Inr (bp', vs2)" ..
      with Cons.prems False None show ?thesis
        by (auto simp: rel_key_def split: sum.splits if_splits prod.splits)
    next
      case (Some k)
      with Cons.prems obtain vs1 where
        g: "group_variants ws (append_to bp k (stripped w)) = Inr (bp', vs1)"
        by (auto simp: rel_key_def stripped_def split: sum.splits if_splits prod.splits)
      from Cons.IH[OF g] obtain vs2 where
        "group_variants (removeAll v ws) (append_to bp k (stripped w)) = Inr (bp', vs2)" ..
      with Cons.prems False Some show ?thesis
        by (auto simp: rel_key_def stripped_def split: sum.splits if_splits prod.splits)
    qed
  qed
qed

lemma attach_variants_removeAll:
  assumes "attach_variants ps vs n = Inr a" "relation_id v = Inr pid" "\<not> truthy pid"
  shows "\<exists>a'. attach_variants ps (removeAll v vs) n = Inr a'
           \<and> att_products a' = att_products a \<and> att_warnings a' = att_warnings a"
proof -
  from assms(1) obtain bp vs' where g: "group_variants vs [] = Inr (bp, vs')"
    by (auto simp: attach_variants_def split: sum.splits prod.splits)
  from group_variants_removeAll[OF g assms(2,3)] obtain vs'' where
    g': "group_variants (removeAll v vs) [] = Inr (bp, vs'')" ..
  from assms(1) g g' show ?thesis
    by (auto simp: attach_variants_def bindE_eq_Inr)
qed

lemma attach_products_keys:
  assumes "attach_variants ps vs n = Inr a" "p \<in> set ps"
  shows "\<exists>k. entity_key p = Inr k"
proof -
  from assms(1) obtain ks where "mapE entity_key ps = Inr ks"
    by (auto simp: attach_variants_def id_set_def bindE_eq_Inr split: sum.splits prod.splits)
  with assms(2) show ?thesis
    by (auto simp: mapE_eq_Inr list_all2_conv_all_nth in_set_conv_nth)
qed

lemma count_attached_product:
  assumes "entity_key p = Inr k"
  shows "count_attached (attached_product p vs) = Inr (length (attached_list p vs))"
  using assms entity_key_dict[OF assms]
  by (auto simp: count_attached_def attached_product_def attached_list_def update_conv')

lemma attach_stage_result:
  assumes "attach_variants ps vs (Some (sh_name shp)) = Inr a"
  shows "attach_stage shp ps vs s =
     (Inr (att_products a),
      s\<lparr>st_metrics := (st_metrics s)\<lparr>products_fetched := int (length ps),
           variants_fetched := int (length vs),
           variants_filtered :=
             int (length vs) - (\<Sum>p\<leftarrow>ps. int (length (attached_list p vs)))\<rparr>,
        st_world := (st_world s)\<lparr>console := console (st_world s) @ att_warnings a\<rparr>\<rparr>)"
proof -
  note r = attach_variants_result[OF assms]
  have c: "mapE count_attached (att_products a) = Inr (map (\<lambda>p. length (attached_list p vs)) ps)"
    using r attach_products_keys[OF assms nth_mem] count_attached_product
    by (fastforce simp: mapE_eq_Inr list_all2_conv_all_nth)
  have c': "mapE count_attached (map (\<lambda>p. attached_product p vs) ps) =
             Inr (map (\<lambda>p. length (attached_list p vs)) ps)"
    using c r by simp
  have l: "length (att_variants a) = length vs" using r by simp
  show ?thesis
    using r l by (simp add: attach_stage_def seq_def set_metrics_def lift_def print_lines_def ret_def
        assms c' comp_def)
qed

lemma ex_attach: "attach_variants ex_products ex_variants (Some ''nl'') = Inr ex_attached"
  by (simp add: attach_variants_def ex_products_def ex_variants_def mk_product_def mk_variant_def
      loose_variant_def ex_attached_def relation_id_def append_to_def lookup_list_def
      id_set_def entity_key_def set_variants_def)

text \<open>
  Claim C10, as the program has it. Let \<open>v\<close> be a variant whose relation id reads as a
  false value: the \<^verbatim>\<open>product\<close> field is missing, or it is a dictionary whose
  \<^verbatim>\<open>resource\<close> is missing or is a dictionary whose \<^verbatim>\<open>id\<close> is missing, null, 0 or
  otherwise false. If the join returns, then it returns the same products and prints the
  same lines as on the input without \<open>v\<close>: \<open>v\<close> is in no product's list and in no
  warning. Every occurrence of \<open>v\<close> stays in the list \<^verbatim>\<open>variants\<close> as it is, its
  \<^verbatim>\<open>product\<close> field not removed, and \<^verbatim>\<open>variants_filtered\<close> counts each occurrence:
  the metric is larger by their number than on the input without \<open>v\<close>.
\<close>

theorem relationless_variant:
  assumes "v \<in> set variants" and "relation_id v = Inr pid" and "\<not> truthy pid"
    and "attach_variants products variants (Some (sh_name shp)) = Inr a"
  shows "\<exists>a' s1 s2.
       attach_variants products (removeAll v variants) (Some (sh_name shp)) = Inr a'
     \<and> att_products a' = att_products a \<and> att_warnings a' = att_warnings a
     \<and> (\<forall>i<length variants. variants ! i = v \<longrightarrow> att_variants a ! i = v)
     \<and> attach_stage shp products variants s = (Inr (att_products a), s1)
     \<and> attach_stage shp products (removeAll v variants) s = (Inr (att_products a), s2)
     \<and> variants_filtered (st_metrics s1) =
         variants_filtered (st_metrics s2) + int (count_list variants v)
     \<and> 0 < count_list variants v"
proof -
  have none: "rel_key v = None" by (rule rel_key_falsy[OF assms(2,3)])
  from attach_variants_removeAll[OF assms(4,2,3)] obtain a' where
    a': "attach_variants products (removeAll v variants) (Some (sh_name shp)) = Inr a'"
    and same: "att_products a' = att_products a" "att_warnings a' = att_warnings a" by blast
  have keep: "\<forall>i<length variants. variants ! i = v \<longrightarrow> att_variants a ! i = v"
    using attach_variants_result[OF assms(4)] none by simp
  have l: "attached_list p (removeAll v variants) = attached_list p variants" for p
    by (simp add: attached_list_def variants_for_removeAll[OF none] split: sum.splits)
  have pos: "0 < count_list variants v" using assms(1) count_list_0_iff[of variants v] by simp
  show ?thesis
    using a' same keep pos removeAll_count[of variants v]
    by (simp add: attach_stage_result[OF assms(4)] attach_stage_result[OF a'] l)
qed

text \<open>The theorem at the variant of the example whose relation is an empty dictionary.\<close>

theorem relationless_variant_witness:
  "\<exists>s1 s2.
       attach_stage ex_shop ex_products ex_variants start_state = (Inr (att_products ex_attached), s1)
     \<and> attach_stage ex_shop ex_products (removeAll loose_variant ex_variants) start_state =
         (Inr (att_products ex_attached), s2)
     \<and> att_variants ex_attached ! 3 = loose_variant
     \<and> console (st_world s1) = [OrphanVariants ''[nl] '' 1 (KNum 9) [JInt 12]]
     \<and> variants_filtered (st_metrics s1) = 2
     \<and> variants_filtered (st_metrics s1) = variants_filtered (st_metrics s2) + 1"
proof -
  have n: "sh_name ex_shop = ''nl''" by (simp add: ex_shop_def)
  have 1: "loose_variant \<in> set ex_variants" by (simp add: ex_variants_def)
  have 2: "relation_id loose_variant = Inr JNull" by (simp add: relation_id_def loose_variant_def)
  have 3: "\<not> truthy JNull" by simp
  have 4: "attach_variants ex_products ex_variants (Some (sh_name ex_shop)) = Inr ex_attached"
    by (simp add: n ex_attach)
  have c: "count_list ex_variants loose_variant = 1"
    by (simp add: ex_variants_def mk_variant_def loose_variant_def)
  from relationless_variant[OF 1 2 3 4, of start_state] obtain s1 s2 where
    r: "attach_stage ex_shop ex_products ex_variants start_state = (Inr (att_products ex_attached), s1)"
       "attach_stage ex_shop ex_products (removeAll loose_variant ex_variants) start_state =
          (Inr (att_products ex_attached), s2)"
       "variants_filtered (st_metrics s1) =
          variants_filtered (st_metrics s2) + int (count_list ex_variants loose_variant)"
    by blast
  have s1: "s1 = snd (attach_stage ex_shop ex_products ex_variants start_state)" using r(1) by simp
  have m: "console (st_world s1) = [OrphanVariants ''[nl] '' 1 (KNum 9) [JInt 12]]
         \<and> variants_filtered (st_metrics s1) = 2"
    unfolding s1 attach_stage_result[OF 4]
    by (simp add: ex_attached_def start_state_def empty_world_def ex_products_def ex_variants_def
        attached_list_def example_defs)
  show ?thesis using r c m by (auto simp: ex_attached_def)
qed

text \<open>
  Claim C10 as stated includes the variants whose \<^verbatim>\<open>product\<close> field is there but is
  not a dictionary. On a variant with \<^verbatim>\<open>"product": null\<close> the join raises
  \<^verbatim>\<open>AttributeError\<close> and returns nothing.
\<close>

theorem null_relation_counterexample:
  "attach_variants ex_products [null_relation_variant] (Some ''nl'') =
     Inl (AttributeError ''NoneType'' ''get'')"
  by (simp add: attach_variants_def null_relation_variant_def relation_id_def)

lemma mapE_hash_keys: "mapE hash_key xs = Inr ks \<Longrightarrow> set ks = keys_of xs"
  unfolding keys_of_def
  by (induction xs arbitrary: ks) (auto simp: bindE_eq_Inr)

lemma mapE_map: "mapE f (map g xs) = mapE (\<lambda>x. f (g x)) xs"
  by (induction xs) auto

lemma key_in_empty [simp]: "key_in x {} = False"
  by (simp add: key_in_def split: sum.splits)

lemma key_in_Diff_subset: "A \<subseteq> B \<Longrightarrow> key_in x (A - B) = False"
  by (auto simp: key_in_def split: sum.splits)

text \<open>Steps, equation by equation.\<close>

lemma seq_eq_Inr:
  "seq m f s = (Inr y, s') \<longleftrightarrow> (\<exists>x s1. m s = (Inr x, s1) \<and> f x s1 = (Inr y, s'))"
  by (auto simp: seq_def split: prod.splits sum.splits)

lemma seq_eq_Inl:
  "seq m f s = (Inl e, s') \<longleftrightarrow>
     m s = (Inl e, s') \<or> (\<exists>x s1. m s = (Inr x, s1) \<and> f x s1 = (Inl e, s'))"
  by (auto simp: seq_def split: prod.splits sum.splits)

lemma lift_eq: "lift r s = (r', s') \<longleftrightarrow> r = r' \<and> s' = s"
  by (auto simp: lift_def)

lemma ret_eq: "ret x s = (r, s') \<longleftrightarrow> r = Inr x \<and> s' = s"
  by (auto simp: ret_def)

lemma set_metrics_eq:
  "set_metrics f s = (r, s') \<longleftrightarrow> r = Inr () \<and> s' = s\<lparr>st_metrics := f (st_metrics s)\<rparr>"
  by (auto simp: set_metrics_def)

lemma print_lines_eq:
  "print_lines ls s = (r, s') \<longleftrightarrow>
     r = Inr () \<and> s' = s\<lparr>st_world := (st_world s)\<lparr>console := console (st_world s) @ ls\<rparr>\<rparr>"
  by (auto simp: print_lines_def)

lemma on_store_call_Inr:
  "on_store (store_call ev c effect) s = (Inr x, s') \<longleftrightarrow>
     store_fault ev (length (calls (st_world s))) = None \<and>
     x = fst (effect ((st_world s)\<lparr>calls := calls (st_world s) @ [c]\<rparr>)) \<and>
     s' = s\<lparr>st_world := snd (effect ((st_world s)\<lparr>calls := calls (st_world s) @ [c]\<rparr>))\<rparr>"
  by (auto simp: on_store_def store_call_def Let_def split: option.splits prod.splits)

lemma on_store_call_Inl:
  "on_store (store_call ev c effect) s = (Inl e, s') \<longleftrightarrow>
     (\<exists>msg. store_fault ev (length (calls (st_world s))) = Some msg \<and> e = StoreError msg) \<and>
     s' = s\<lparr>st_world := (st_world s)\<lparr>calls := calls (st_world s) @ [c]\<rparr>\<rparr>"
  by (auto simp: on_store_def store_call_def Let_def split: option.splits prod.splits)

lemmas step_eqs = seq_eq_Inr lift_eq ret_eq set_metrics_eq print_lines_eq on_store_call_Inr

lemma cleanup_products_result:
  assumes "cleanup_products ev shp products s = (Inr P, s')"
  shows "P = product_keys products \<and>
     st_world s' = (st_world s)
       \<lparr>calls := calls (st_world s) @ SelectProductIds (sh_id shp) #
          (if stored_product_keys (sh_id shp) (st_world s) - P = {} then []
           else [DeleteProducts (sh_id shp) (stored_product_keys (sh_id shp) (st_world s) - P)]),
        tbl_products :=
          filter (\<lambda>r. \<not> (pr_shop_id r = sh_id shp \<and>
                     key_in (pr_product_id r) (stored_product_keys (sh_id shp) (st_world s) - P)))
            (tbl_products (st_world s))\<rparr> \<and>
     st_metrics s' =
       (if stored_product_keys (sh_id shp) (st_world s) - P = {} then st_metrics s
        else (st_metrics s)\<lparr>products_deleted :=
               int (card (stored_product_keys (sh_id shp) (st_world s) - P))\<rparr>)"
proof -
  from assms obtain P0 ks where
    P: "id_set products = Inr P0" and
    ks: "mapE hash_key (map pr_product_id
           (filter (\<lambda>r. pr_shop_id r = sh_id shp) (tbl_products (st_world s)))) = Inr ks" and
    rest: "(if set ks - P0 \<noteq> {} then
         seq (on_store (store_call ev (DeleteProducts (sh_id shp) (set ks - P0))
                (delete_products (sh_id shp) (set ks - P0)))) (\<lambda>u.
         seq (set_metrics (\<lambda>m. m\<lparr>products_deleted := int (card (set ks - P0))\<rparr>)) (\<lambda>u.
         ret P0))
       else ret P0)
        (s\<lparr>st_world := (st_world s)\<lparr>calls := calls (st_world s) @ [SelectProductIds (sh_id shp)]\<rparr>\<rparr>)
       = (Inr P, s')"
    by (auto simp: cleanup_products_def step_eqs select_product_ids_def Let_def)
  have st: "set ks = stored_product_keys (sh_id shp) (st_world s)"
    using mapE_hash_keys[OF ks] by (simp add: stored_product_keys_def)
  from rest have PP: "P0 = P" by (auto simp: step_eqs split: if_splits)
  have Pk: "P = product_keys products" using id_set_product_keys[OF P] PP by simp
  show ?thesis
    using rest Pk unfolding PP st
    by (auto simp: step_eqs delete_products_def key_in_Diff_subset split: if_splits)
qed

lemma cleanup_variants_result:
  assumes "cleanup_variants ev shp vrows s = (Inr V, s')"
  shows "V = variant_row_keys vrows \<and>
     st_world s' = (st_world s)
       \<lparr>calls := calls (st_world s) @ SelectVariantIds (sh_id shp) #
          (if stored_variant_keys (sh_id shp) (st_world s) - V = {} then []
           else [DeleteVariants (sh_id shp) (stored_variant_keys (sh_id shp) (st_world s) - V)]),
        tbl_variants :=
          filter (\<lambda>r. \<not> (vr_shop_id r = sh_id shp \<and>
                     key_in (vr_variant_id r) (stored_variant_keys (sh_id shp) (st_world s) - V)))
            (tbl_variants (st_world s))\<rparr> \<and>
     st_metrics s' =
       (if stored_variant_keys (sh_id shp) (st_world s) - V = {} then st_metrics s
        else (st_metrics s)\<lparr>variants_deleted :=
               int (card (stored_variant_keys (sh_id shp) (st_world s) - V))\<rparr>)"
proof -
  from assms obtain vks ks where
    V: "mapE (\<lambda>v. hash_key (vr_variant_id v)) vrows = Inr vks" and
    ks: "mapE hash_key (map vr_variant_id
           (filter (\<lambda>r. vr_shop_id r = sh_id shp) (tbl_variants (st_world s)))) = Inr ks" and
    rest: "(if set ks - set vks \<noteq> {} then
         seq (on_store (store_call ev (DeleteVariants (sh_id shp) (set ks - set vks))
                (delete_variants (sh_id shp) (set ks - set vks)))) (\<lambda>u.
         seq (set_metrics (\<lambda>m. m\<lparr>variants_deleted := int (card (set ks - set vks))\<rparr>)) (\<lambda>u.
         ret (set vks)))
       else ret (set vks))
        (s\<lparr>st_world := (st_world s)\<lparr>calls := calls (st_world s) @ [SelectVariantIds (sh_id shp)]\<rparr>\<rparr>)
       = (Inr V, s')"
    by (auto simp: cleanup_variants_def step_eqs select_variant_ids_def Let_def)
  have st: "set ks = stored_variant_keys (sh_id shp) (st_world s)"
    using mapE_hash_keys[OF ks] by (simp add: stored_variant_keys_def)
  from rest have VV: "set vks = V" by (auto simp: step_eqs split: if_splits)
  have Vk: "V = variant_row_keys vrows"
    using mapE_hash_keys[of "map vr_variant_id vrows" vks] V VV
    by (simp add: variant_row_keys_def mapE_map)
  show ?thesis
    using rest Vk unfolding VV st
    by (auto simp: step_eqs delete_variants_def key_in_Diff_subset split: if_splits)
qed

text \<open>
  Claim C1. Let the cleanup step (lines 264-306) of a shop start in state \<open>s\<close> and
  return. Then the ids it returns are those of the fetched products and of the variant
  rows that were built. The products table afterwards is the table before without the
  rows of this shop whose id is among the ids read back for the shop and not among the
  fetched ids; the variants table likewise. The calls made are the two selects and, only
  where the difference is not empty, the delete of exactly that difference. Hence a row
  of another shop stays, a row whose id was fetched stays, and the two content tables are
  as they were.
\<close>

theorem cleanup_deletes_difference:
  assumes "cleanup ev shp products vrows s = (Inr (P, V), s')"
  shows "P = product_keys products \<and> V = variant_row_keys vrows
     \<and> tbl_products (st_world s') =
         filter (\<lambda>r. \<not> (pr_shop_id r = sh_id shp \<and>
                    key_in (pr_product_id r) (stored_product_keys (sh_id shp) (st_world s) - P)))
           (tbl_products (st_world s))
     \<and> tbl_variants (st_world s') =
         filter (\<lambda>r. \<not> (vr_shop_id r = sh_id shp \<and>
                    key_in (vr_variant_id r) (stored_variant_keys (sh_id shp) (st_world s) - V)))
           (tbl_variants (st_world s))
     \<and> calls (st_world s') =
         calls (st_world s) @
         SelectProductIds (sh_id shp) #
         (if stored_product_keys (sh_id shp) (st_world s) - P = {} then []
          else [DeleteProducts (sh_id shp) (stored_product_keys (sh_id shp) (st_world s) - P)]) @
         SelectVariantIds (sh_id shp) #
         (if stored_variant_keys (sh_id shp) (st_world s) - V = {} then []
          else [DeleteVariants (sh_id shp) (stored_variant_keys (sh_id shp) (st_world s) - V)])
     \<and> (\<forall>r\<in>set (tbl_products (st_world s)).
           pr_shop_id r \<noteq> sh_id shp \<or> key_in (pr_product_id r) P \<longrightarrow>
           r \<in> set (tbl_products (st_world s')))
     \<and> (\<forall>r\<in>set (tbl_variants (st_world s)).
           vr_shop_id r \<noteq> sh_id shp \<or> key_in (vr_variant_id r) V \<longrightarrow>
           r \<in> set (tbl_variants (st_world s')))
     \<and> tbl_product_content (st_world s') = tbl_product_content (st_world s)
     \<and> tbl_variant_content (st_world s') = tbl_variant_content (st_world s)"
proof -
  from assms obtain s1 where
    p: "cleanup_products ev shp products s = (Inr P, s1)" and
    v: "cleanup_variants ev shp vrows s1 = (Inr V, s')"
    by (auto simp: cleanup_def step_eqs)
  note rp = cleanup_products_result[OF p]
  note rv = cleanup_variants_result[OF v]
  have sv: "stored_variant_keys (sh_id shp) (st_world s1) = stored_variant_keys (sh_id shp) (st_world s)"
    using rp by (simp add: stored_variant_keys_def)
  have keep: "\<not> key_in x (A - B)" if "key_in x B" for x A B
    using that by (auto simp: key_in_def split: sum.splits)
  show ?thesis
    using rp rv keep unfolding sv by (auto simp: sv)
qed

lemmas store_defs =
  ex_env_def ex_shop_def stored_state_def stored_world_def empty_world_def zero_metrics_def
  stored_product_def stored_variant_def fetched_products_def mk_product_def

lemma cleanup_example:
  "fst (cleanup ex_env ex_shop fetched_products [stored_variant 1 2 21] stored_state) =
     Inr ({KNum 2, KNum 3, KNum 5}, {KNum 21})"
  by (simp add: cleanup_def cleanup_products_def cleanup_variants_def seq_def lift_def ret_def
      on_store_def store_call_def set_metrics_def select_product_ids_def select_variant_ids_def
      delete_products_def delete_variants_def id_set_def entity_key_def Let_def store_defs)

text \<open>
  The theorem at a store that holds the products 1, 2, 3, 4 of the shop and product 1 of
  another shop, with the products 2, 3, 5 fetched: the rows 1 and 4 of the shop are
  deleted and nothing else.
\<close>

theorem cleanup_deletes_difference_witness:
  "\<exists>s'. cleanup ex_env ex_shop fetched_products [stored_variant 1 2 21] stored_state =
          (Inr ({KNum 2, KNum 3, KNum 5}, {KNum 21}), s')
     \<and> tbl_products (st_world s') = [stored_product 1 2, stored_product 2 1, stored_product 1 3]
     \<and> tbl_variants (st_world s') = [stored_variant 1 2 21, stored_variant 2 1 21]
     \<and> calls (st_world s') =
         [SelectProductIds (JInt 1), DeleteProducts (JInt 1) {KNum 1, KNum 4},
          SelectVariantIds (JInt 1), DeleteVariants (JInt 1) {KNum 41}]"
proof -
  obtain s' where c: "cleanup ex_env ex_shop fetched_products [stored_variant 1 2 21] stored_state =
      (Inr ({KNum 2, KNum 3, KNum 5}, {KNum 21}), s')"
    using cleanup_example by (cases "cleanup ex_env ex_shop fetched_products [stored_variant 1 2 21] stored_state") auto
  have dp: "stored_product_keys (sh_id ex_shop) (st_world stored_state) - {KNum 2, KNum 3, KNum 5}
            = {KNum 1, KNum 4}"
    by (auto simp add: stored_product_keys_def keys_of_def store_defs)
  have dv: "stored_variant_keys (sh_id ex_shop) (st_world stored_state) - {KNum 21} = {KNum 41}"
    by (auto simp add: stored_variant_keys_def keys_of_def store_defs)
  from cleanup_deletes_difference[OF c] show ?thesis
    unfolding dp dv using c by (simp add: key_in_def store_defs)
qed

lemma localized_product_rows_result:
  assumes "mapE (localized_product_row shp lang vp) lp = Inr prs"
  shows "concat prs = map (localized_content_row shp lang) (valid_entities vp lp)"
  using assms
proof (induction lp arbitrary: prs)
  case Nil
  then show ?case by (simp add: valid_entities_def)
next
  case (Cons p lp)
  then show ?case
    by (auto simp: bindE_eq_Inr localized_product_row_def localized_content_row_def
        valid_entities_def key_in_def py_item_get_or_none)
qed

lemma localized_variant_rows_result:
  assumes "mapE (localized_variant_row shp lang vv) lv = Inr vrs"
  shows "concat vrs = map (localized_variant_content_row shp lang) (valid_entities vv lv)"
  using assms
proof (induction lv arbitrary: vrs)
  case Nil
  then show ?case by (simp add: valid_entities_def)
next
  case (Cons v lv)
  then show ?case
    by (auto simp: bindE_eq_Inr localized_variant_row_def localized_variant_content_row_def
        valid_entities_def key_in_def py_item_get_or_none)
qed

lemma bulk_upsert_Inr:
  "bulk_upsert ev rs s = (Inr u, s') \<longleftrightarrow>
     (if no_rows rs then s' = s
      else store_fault ev (length (calls (st_world s))) = None \<and>
           s' = s\<lparr>st_world := snd (apply_upsert rs ((st_world s)\<lparr>calls := calls (st_world s) @ [Upsert rs]\<rparr>))\<rparr>)"
  by (auto simp: bulk_upsert_def on_store_def store_call_def Let_def
      split: option.splits prod.splits sum.splits)

lemma bulk_upsert_Inl:
  "bulk_upsert ev rs s = (Inl e, s') \<longleftrightarrow>
     \<not> no_rows rs \<and>
     (\<exists>msg. store_fault ev (length (calls (st_world s))) = Some msg \<and> e = StoreError msg) \<and>
     s' = s\<lparr>st_world := (st_world s)\<lparr>calls := calls (st_world s) @ [Upsert rs],
            console := console (st_world s) @
              [UpsertFailed (table_name rs) (count_rows rs) (exc_text ev e)]\<rparr>\<rparr>"
  by (auto simp: bulk_upsert_def on_store_def store_call_def Let_def
      split: option.splits prod.splits sum.splits)

lemma apply_upsert_calls [simp]:
  "calls (snd (apply_upsert rs w)) = calls w" "console (snd (apply_upsert rs w)) = console w"
  by (cases rs; simp)+

lemma upsert_all_Nil [simp]: "upsert_all k [] t = t"
  by (simp add: upsert_all_def)

lemma bulk_upsert_product_content:
  assumes "bulk_upsert ev (ProductContentRows rs) s = (Inr u, s')"
  shows "calls (st_world s') =
           calls (st_world s) @ (if rs = [] then [] else [Upsert (ProductContentRows rs)])
     \<and> console (st_world s') = console (st_world s)
     \<and> tbl_product_content (st_world s') =
           upsert_all (\<lambda>r. (pc_shop_id r, hash_key (pc_product_id r), pc_language_code r)) rs
             (tbl_product_content (st_world s))
     \<and> tbl_variant_content (st_world s') = tbl_variant_content (st_world s)"
  using assms by (cases "rs = []") (simp_all add: bulk_upsert_Inr)

lemma bulk_upsert_variant_content:
  assumes "bulk_upsert ev (VariantContentRows rs) s = (Inr u, s')"
  shows "calls (st_world s') =
           calls (st_world s) @ (if rs = [] then [] else [Upsert (VariantContentRows rs)])
     \<and> console (st_world s') = console (st_world s)
     \<and> tbl_variant_content (st_world s') =
           upsert_all (\<lambda>r. (vc_shop_id r, hash_key (vc_variant_id r), vc_language_code r)) rs
             (tbl_variant_content (st_world s))
     \<and> tbl_product_content (st_world s') = tbl_product_content (st_world s)"
  using assms by (cases "rs = []") (simp_all add: bulk_upsert_Inr)

lemma valid_entities_length: "length (valid_entities valid xs) \<le> length xs"
  by (simp add: valid_entities_def)

text \<open>
  Claim C3. Let the pass of a secondary language (lines 328-365) on the fetched
  \<open>lp\<close> and \<open>lv\<close> return. Then the rows it upserts into \<^verbatim>\<open>product_content\<close> are the
  content rows of exactly the fetched products whose id is in the valid product id set, in
  one call (no call if there is none), and likewise for the variants and
  \<^verbatim>\<open>variant_content\<close>: the row of a fetched entity is written if and only if its id is
  valid. The count the pass prints is the number fetched minus the number of rows written,
  and it is printed when it is positive.
\<close>

theorem secondary_language_filtering:
  assumes "sync_language ev shp lang vp vv lp lv s = (Inr (), s')"
  shows "calls (st_world s') = calls (st_world s) @
           (if valid_entities vp lp = [] then []
            else [Upsert (ProductContentRows
                    (map (localized_content_row shp lang) (valid_entities vp lp)))]) @
           (if valid_entities vv lv = [] then []
            else [Upsert (VariantContentRows
                    (map (localized_variant_content_row shp lang) (valid_entities vv lv)))])
     \<and> (\<forall>p\<in>set lp. localized_content_row shp lang p
             \<in> set (map (localized_content_row shp lang) (valid_entities vp lp))
           \<longleftrightarrow> key_in (get_or_none p ''id'') vp)
     \<and> (\<forall>v\<in>set lv. localized_variant_content_row shp lang v
             \<in> set (map (localized_variant_content_row shp lang) (valid_entities vv lv))
           \<longleftrightarrow> key_in (get_or_none v ''id'') vv)
     \<and> console (st_world s') = console (st_world s) @
           (if length (valid_entities vp lp) < length lp
            then [FilteredProducts (sh_name shp)
                    (int (length lp) - int (length (valid_entities vp lp)))] else []) @
           (if length (valid_entities vv lv) < length lv
            then [FilteredVariants (sh_name shp)
                    (int (length lv) - int (length (valid_entities vv lv)))] else [])
     \<and> tbl_product_content (st_world s') =
           upsert_all (\<lambda>r. (pc_shop_id r, hash_key (pc_product_id r), pc_language_code r))
             (map (localized_content_row shp lang) (valid_entities vp lp))
             (tbl_product_content (st_world s))
     \<and> tbl_variant_content (st_world s') =
           upsert_all (\<lambda>r. (vc_shop_id r, hash_key (vc_variant_id r), vc_language_code r))
             (map (localized_variant_content_row shp lang) (valid_entities vv lv))
             (tbl_variant_content (st_world s))"
proof -
  let ?P = "map (localized_content_row shp lang) (valid_entities vp lp)"
  let ?V = "map (localized_variant_content_row shp lang) (valid_entities vv lv)"
  let ?L = "(if length (valid_entities vp lp) < length lp
            then [FilteredProducts (sh_name shp)
                    (int (length lp) - int (length (valid_entities vp lp)))] else []) @
           (if length (valid_entities vv lv) < length lv
            then [FilteredVariants (sh_name shp)
                    (int (length lv) - int (length (valid_entities vv lv)))] else [])"
  from assms obtain prs vrs where
    p: "mapE (localized_product_row shp lang vp) lp = Inr prs" and
    v: "mapE (localized_variant_row shp lang vv) lv = Inr vrs"
    by (auto simp: sync_language_def step_eqs)
  have rp: "concat prs = ?P" by (rule localized_product_rows_result[OF p])
  have rv: "concat vrs = ?V" by (rule localized_variant_rows_result[OF v])
  have lrp: "length (concat prs) = length (valid_entities vp lp)" by (simp only: rp length_map)
  have lrv: "length (concat vrs) = length (valid_entities vv lv)" by (simp only: rv length_map)
  from assms obtain s2 where
    u1: "bulk_upsert ev (ProductContentRows ?P)
           (s\<lparr>st_world := (st_world s)\<lparr>console := console (st_world s) @ ?L\<rparr>\<rparr>) = (Inr (), s2)" and
    u2: "bulk_upsert ev (VariantContentRows ?V) s2 = (Inr (), s')"
    unfolding sync_language_def
    by (simp add: step_eqs p v rp rv lrp lrv Let_def cong: if_cong) auto
  note e1 = bulk_upsert_product_content[OF u1]
  note e2 = bulk_upsert_variant_content[OF u2]
  have iffp: "localized_content_row shp lang p \<in> set ?P
           \<longleftrightarrow> key_in (get_or_none p ''id'') vp" if "p \<in> set lp" for p
    using that
    by (auto simp: valid_entities_def localized_content_row_def content_row_of_def)
  have iffv: "localized_variant_content_row shp lang x \<in> set ?V
           \<longleftrightarrow> key_in (get_or_none x ''id'') vv" if "x \<in> set lv" for x
    using that
    by (auto simp: valid_entities_def localized_variant_content_row_def)
  have c: "calls (st_world s') = calls (st_world s) @
           (if valid_entities vp lp = [] then [] else [Upsert (ProductContentRows ?P)]) @
           (if valid_entities vv lv = [] then [] else [Upsert (VariantContentRows ?V)])"
    using e1 e2 by simp
  have l: "console (st_world s') = console (st_world s) @ ?L"
    using e1 e2 by simp
  have t1: "tbl_product_content (st_world s') =
           upsert_all (\<lambda>r. (pc_shop_id r, hash_key (pc_product_id r), pc_language_code r)) ?P
             (tbl_product_content (st_world s))"
    using e1 e2 by simp
  have t2: "tbl_variant_content (st_world s') =
           upsert_all (\<lambda>r. (vc_shop_id r, hash_key (vc_variant_id r), vc_language_code r)) ?V
             (tbl_variant_content (st_world s))"
    using e1 e2 by simp
  show ?thesis
    using c l t1 t2 iffp iffv by blast
qed

lemma sync_language_example:
  "fst (sync_language ex_env ex_shop ''de'' {KNum 10, KNum 11} {} localized_products [] start_state)
     = Inr ()"
  by (simp add: sync_language_def seq_def lift_def print_lines_def bulk_upsert_def on_store_def
      store_call_def localized_product_row_def localized_products_def mk_product_def Let_def
      ex_env_def start_state_def empty_world_def)

text \<open>
  The theorem at the valid product ids 10 and 11 and a fetch of the products 10, 11, 12:
  rows are written for 10 and 11, and the count printed is 1.
\<close>

theorem secondary_language_filtering_witness:
  "\<exists>s'. sync_language ex_env ex_shop ''de'' {KNum 10, KNum 11} {} localized_products []
            start_state = (Inr (), s')
     \<and> calls (st_world s') =
         [Upsert (ProductContentRows [localized_content_row ex_shop ''de'' (mk_product 10),
                                      localized_content_row ex_shop ''de'' (mk_product 11)])]
     \<and> console (st_world s') = [FilteredProducts ''nl'' 1]"
proof -
  obtain s' where c: "sync_language ex_env ex_shop ''de'' {KNum 10, KNum 11} {} localized_products []
            start_state = (Inr (), s')"
    using sync_language_example
    by (cases "sync_language ex_env ex_shop ''de'' {KNum 10, KNum 11} {} localized_products [] start_state")
       auto
  have v: "valid_entities {KNum 10, KNum 11} localized_products = [mk_product 10, mk_product 11]"
    by (simp add: valid_entities_def localized_products_def mk_product_def key_in_def)
  have e: "valid_entities {} [] = []" by (simp add: valid_entities_def)
  from secondary_language_filtering[OF c] show ?thesis
    unfolding v e using c
    by (simp add: localized_products_def start_state_def empty_world_def ex_shop_def)
qed

lemma variant_rows_of_result:
  assumes "variant_rows_of shp bl pid v = Inr rc"
  shows "fst rc = variant_row_of shp pid v \<and> snd rc = localized_variant_content_row shp bl v"
  using assms
  by (auto simp: variant_rows_of_def variant_row_of_def localized_variant_content_row_def
      bindE_eq_Inr py_item_get_or_none)

lemma variant_pairs_result:
  assumes "mapE (variant_rows_of shp bl pid) l = Inr pairs"
  shows "map fst pairs = map (variant_row_of shp pid) l \<and>
         map snd pairs = map (localized_variant_content_row shp bl) l"
  using assms
  by (induction l arbitrary: pairs) (auto simp: bindE_eq_Inr dest: variant_rows_of_result)

lemma rows_of_product_result:
  assumes "rows_of_product shp bl p = Inr r" "get_or_none p ''variants'' = JList l"
  shows "fst r = product_row_of shp (get_or_none p ''id'') p \<and>
         fst (snd r) = content_row_of shp bl (get_or_none p ''id'') p \<and>
         map fst (snd (snd r)) = map (variant_row_of shp (get_or_none p ''id'')) l \<and>
         map snd (snd (snd r)) = map (localized_variant_content_row shp bl) l"
proof -
  from assms obtain pid pairs where
    i: "py_item p ''id'' = Inr pid" and
    m: "mapE (variant_rows_of shp bl pid) l = Inr pairs" and
    r: "r = (product_row_of shp pid p, content_row_of shp bl pid p, pairs)"
  proof -
    from assms(1) obtain pid vl vs pairs where
      "py_item p ''id'' = Inr pid" "py_item p ''variants'' = Inr vl" "py_iter vl = Inr vs"
      "mapE (variant_rows_of shp bl pid) vs = Inr pairs"
      "r = (product_row_of shp pid p, content_row_of shp bl pid p, pairs)"
      by (auto simp: rows_of_product_def bindE_eq_Inr)
    moreover from this(2) assms(2) have "vl = JList l" using py_item_get_or_none by fastforce
    ultimately show ?thesis using that by auto
  qed
  from py_item_get_or_none[OF i] variant_pairs_result[OF m] r show ?thesis by simp
qed

lemma build_rows_variant_rows:
  assumes "build_rows shp bl ps = Inr rows"
    and "\<forall>p\<in>set ps. \<exists>l. get_or_none p ''variants'' = JList l"
  shows "variant_rows rows =
           concat (map (\<lambda>p. map (variant_row_of shp (get_or_none p ''id'')) (variants_of p)) ps)"
proof -
  from assms(1) obtain rs where
    m: "mapE (rows_of_product shp bl) ps = Inr rs" and
    v: "variant_rows rows = concat (map (\<lambda>r. map fst (snd (snd r))) rs)"
    by (auto simp: build_rows_def bindE_eq_Inr)
  from m assms(2) have
    "map (\<lambda>r. map fst (snd (snd r))) rs =
     map (\<lambda>p. map (variant_row_of shp (get_or_none p ''id'')) (variants_of p)) ps"
  proof (induction ps arbitrary: rs)
    case Nil
    then show ?case by simp
  next
    case (Cons p ps)
    from Cons.prems obtain l where l: "get_or_none p ''variants'' = JList l" by auto
    from Cons.prems obtain r rs' where
      r: "rows_of_product shp bl p = Inr r" and
      rs': "mapE (rows_of_product shp bl) ps = Inr rs'" and
      rs: "rs = r # rs'"
      by (auto simp: bindE_eq_Inr)
    from rows_of_product_result[OF r l] Cons.IH[OF rs'] Cons.prems(2) l rs
    show ?case by (simp add: variants_of_def)
  qed
  with v show ?thesis by simp
qed

lemma attached_product_facts:
  assumes "entity_key p = Inr k"
  shows "get_or_none (attached_product p vs) ''variants'' = JList (attached_list p vs)"
    and "get_or_none (attached_product p vs) ''id'' = get_or_none p ''id''"
    and "entity_key (attached_product p vs) = entity_key p"
    and "variants_of (attached_product p vs) = attached_list p vs"
  using assms entity_key_dict[OF assms]
  by (auto simp: attached_product_def attached_list_def variants_of_def entity_key_def
      update_conv' bindE_eq_Inr)

lemma product_keys_attached:
  assumes "\<forall>p\<in>set ps. \<exists>k. entity_key p = Inr k"
  shows "product_keys (map (\<lambda>p. attached_product p vs) ps) = product_keys ps"
  using assms by (induction ps) (auto simp: product_keys_def attached_product_facts(3))

lemma attach_stage_Inr:
  assumes "attach_stage shp ps vs s = (Inr ps', s')"
  shows "\<exists>a. attach_variants ps vs (Some (sh_name shp)) = Inr a \<and> ps' = att_products a"
  using assms by (auto simp: attach_stage_def step_eqs)

lemma upsert_stage_Inr:
  assumes "upsert_stage ev shp bl ps s = (Inr vrows, s')"
  shows "\<exists>rows. build_rows shp bl ps = Inr rows \<and> vrows = variant_rows rows"
  using assms by (auto simp: upsert_stage_def step_eqs)

lemma sync_base_valid_ids:
  assumes "sync_base ev shp bl products variants s = (Inr (vp, vv), s')"
  shows "vp = product_keys products
     \<and> vv = keys_of (map (\<lambda>v. get_or_none v ''id'') (attached_variants products variants))
     \<and> (\<exists>a rows. attach_variants products variants (Some (sh_name shp)) = Inr a
           \<and> build_rows shp bl (att_products a) = Inr rows
           \<and> vv = variant_row_keys (variant_rows rows))"
proof -
  from assms obtain ps' s1 vrows s2 where
    a1: "attach_stage shp products variants s = (Inr ps', s1)" and
    u1: "upsert_stage ev shp bl ps' s1 = (Inr vrows, s2)" and
    c1: "cleanup ev shp ps' vrows s2 = (Inr (vp, vv), s')"
    by (auto simp: sync_base_def step_eqs)
  from attach_stage_Inr[OF a1] obtain a where
    a: "attach_variants products variants (Some (sh_name shp)) = Inr a" and ps': "ps' = att_products a"
    by blast
  from upsert_stage_Inr[OF u1] obtain rows where
    b: "build_rows shp bl ps' = Inr rows" and vrows: "vrows = variant_rows rows" by blast
  from c1 obtain s3 where
    cp: "cleanup_products ev shp ps' s2 = (Inr vp, s3)" and
    cv: "cleanup_variants ev shp vrows s3 = (Inr vv, s')"
    by (auto simp: cleanup_def step_eqs)
  have keys: "\<forall>p\<in>set products. \<exists>k. entity_key p = Inr k"
    using attach_products_keys[OF a] by blast
  have ps: "ps' = map (\<lambda>p. attached_product p variants) products"
    using attach_variants_result[OF a] ps' by simp
  have vp: "vp = product_keys products"
    using cleanup_products_result[OF cp] ps product_keys_attached[OF keys] by simp
  have lists: "\<forall>p\<in>set ps'. \<exists>l. get_or_none p ''variants'' = JList l"
    using keys attached_product_facts(1) unfolding ps by fastforce
  have "map vr_variant_id vrows =
        map (\<lambda>v. get_or_none v ''id'') (attached_variants products variants)"
    unfolding vrows build_rows_variant_rows[OF b lists] ps attached_variants_def
    using keys
    by (induction products) (auto simp: attached_product_facts variant_row_of_def comp_def)
  then have vv: "vv = keys_of (map (\<lambda>v. get_or_none v ''id'') (attached_variants products variants))"
    using cleanup_variants_result[OF cv] by (simp add: variant_row_keys_def)
  have "vv = variant_row_keys (variant_rows rows)"
    using cleanup_variants_result[OF cv] vrows by simp
  with a b ps' vp vv show ?thesis by blast
qed

text \<open>
  Claim C8. When the base language pass (lines 198-313) returns, the valid product ids
  it hands to the secondary languages are the ids of the products fetched for the base
  language, and the valid variant ids are the ids of the variants that the join attached
  to a fetched product, which are the ids of the variant rows that were built. Both are
  functions of the fetch alone: whatever the store held, whatever the cleanup deleted and
  whatever the environment, a pass on the same fetch that returns yields the same two
  sets.
\<close>

theorem valid_ids_from_base_fetch:
  assumes "sync_base ev shp base_lang products variants s = (Inr (vp, vv), s')"
  shows "vp = product_keys products
     \<and> vv = keys_of (map (\<lambda>v. get_or_none v ''id'') (attached_variants products variants))
     \<and> (\<exists>a rows. attach_variants products variants (Some (sh_name shp)) = Inr a
           \<and> build_rows shp base_lang (att_products a) = Inr rows
           \<and> vv = variant_row_keys (variant_rows rows))
     \<and> (\<forall>ev' t t' vp' vv'.
           sync_base ev' shp base_lang products variants t = (Inr (vp', vv'), t') \<longrightarrow>
           vp' = vp \<and> vv' = vv)"
proof -
  have "vp' = vp \<and> vv' = vv"
    if "sync_base ev' shp base_lang products variants t = (Inr (vp', vv'), t')"
    for ev' t t' vp' vv'
    using sync_base_valid_ids[OF that] sync_base_valid_ids[OF assms] by simp
  with sync_base_valid_ids[OF assms] show ?thesis by blast
qed

lemma bulk_upsert_returns:
  assumes "\<forall>n. store_fault ev n = None"
  shows "\<exists>s'. bulk_upsert ev rs s = (Inr (), s') \<and> st_metrics s' = st_metrics s
     \<and> (no_rows rs \<longrightarrow> s' = s)
     \<and> (\<not> no_rows rs \<longrightarrow>
          st_world s' = snd (apply_upsert rs ((st_world s)\<lparr>calls := calls (st_world s) @ [Upsert rs]\<rparr>)))"
  using assms by (cases "no_rows rs") (simp_all add: bulk_upsert_Inr)

lemma hashable_keys:
  assumes "\<forall>x\<in>set xs. \<exists>k. hash_key x = Inr k"
  shows "\<exists>ks. mapE hash_key xs = Inr ks"
  using assms by (intro mapE_total) auto

lemma cleanup_products_returns:
  assumes "\<forall>n. store_fault ev n = None"
    and "\<forall>p\<in>set ps. wf_product p"
    and "\<forall>r\<in>set (tbl_products (st_world s)). \<exists>k. hash_key (pr_product_id r) = Inr k"
  shows "\<exists>P s'. cleanup_products ev shp ps s = (Inr P, s')"
proof -
  have P: "id_set ps = Inr (product_keys ps)" by (rule wf_products_id_set[OF assms(2)])
  from assms(3) obtain ks where
    ks: "mapE hash_key (map pr_product_id
           (filter (\<lambda>r. pr_shop_id r = sh_id shp) (tbl_products (st_world s)))) = Inr ks"
    using hashable_keys[of "map pr_product_id
           (filter (\<lambda>r. pr_shop_id r = sh_id shp) (tbl_products (st_world s)))"] by auto
  show ?thesis
    using assms(1)
    by (simp add: cleanup_products_def seq_def lift_def P ks on_store_def store_call_def
        select_product_ids_def delete_products_def set_metrics_def ret_def Let_def)
qed

lemma cleanup_variants_returns:
  assumes "\<forall>n. store_fault ev n = None"
    and "\<forall>r\<in>set vrows. \<exists>k. hash_key (vr_variant_id r) = Inr k"
    and "\<forall>r\<in>set (tbl_variants (st_world s)). \<exists>k. hash_key (vr_variant_id r) = Inr k"
  shows "\<exists>V s'. cleanup_variants ev shp vrows s = (Inr V, s')"
proof -
  from assms(2) obtain vks where
    vks: "mapE (\<lambda>v. hash_key (vr_variant_id v)) vrows = Inr vks"
    using mapE_total[of vrows "\<lambda>v. hash_key (vr_variant_id v)"] by auto
  from assms(3) obtain ks where
    ks: "mapE hash_key (map vr_variant_id
           (filter (\<lambda>r. vr_shop_id r = sh_id shp) (tbl_variants (st_world s)))) = Inr ks"
    using hashable_keys[of "map vr_variant_id
           (filter (\<lambda>r. vr_shop_id r = sh_id shp) (tbl_variants (st_world s)))"] by auto
  show ?thesis
    using assms(1)
    by (simp add: cleanup_variants_def seq_def lift_def vks ks on_store_def store_call_def
        select_variant_ids_def delete_variants_def set_metrics_def ret_def Let_def)
qed

lemma upsert1_subset: "set (upsert1 k tbl r) \<subseteq> insert r (set tbl)"
  by (auto simp: upsert1_def)

lemma upsert_all_subset: "set (upsert_all k new tbl) \<subseteq> set new \<union> set tbl"
  unfolding upsert_all_def
proof (induction new arbitrary: tbl)
  case Nil
  then show ?case by simp
next
  case (Cons r new)
  from Cons.IH[of "upsert1 k tbl r"] upsert1_subset[of k tbl r] show ?case by auto
qed

lemma upsert_all_mem: "x \<in> set (upsert_all k new tbl) \<Longrightarrow> x \<in> set new \<or> x \<in> set tbl"
  using upsert_all_subset[of k new tbl] by auto

lemma bulk_upsert_tables:
  assumes "\<forall>n. store_fault ev n = None"
  shows "\<exists>s'. bulk_upsert ev rs s = (Inr (), s')
     \<and> set (tbl_products (st_world s')) \<subseteq>
         set (tbl_products (st_world s)) \<union> (case rs of ProductRows r \<Rightarrow> set r | _ \<Rightarrow> {})
     \<and> set (tbl_variants (st_world s')) \<subseteq>
         set (tbl_variants (st_world s)) \<union> (case rs of VariantRows r \<Rightarrow> set r | _ \<Rightarrow> {})"
proof -
  from bulk_upsert_returns[OF assms, of rs s] obtain s' where
    b: "bulk_upsert ev rs s = (Inr (), s')" and
    n: "no_rows rs \<longrightarrow> s' = s" and
    w: "\<not> no_rows rs \<longrightarrow>
          st_world s' = snd (apply_upsert rs ((st_world s)\<lparr>calls := calls (st_world s) @ [Upsert rs]\<rparr>))"
    by blast
  show ?thesis
  proof (cases "no_rows rs")
    case True
    with b n show ?thesis by auto
  next
    case False
    with w have "st_world s' =
        snd (apply_upsert rs ((st_world s)\<lparr>calls := calls (st_world s) @ [Upsert rs]\<rparr>))" by simp
    with b show ?thesis
      by (cases rs) (auto dest: upsert_all_mem)
  qed
qed

lemma upsert_stage_returns:
  assumes "\<forall>n. store_fault ev n = None" and "build_rows shp bl ps = Inr rows"
  shows "\<exists>s'. upsert_stage ev shp bl ps s = (Inr (variant_rows rows), s')
     \<and> set (tbl_products (st_world s')) \<subseteq> set (tbl_products (st_world s)) \<union> set (product_rows rows)
     \<and> set (tbl_variants (st_world s')) \<subseteq> set (tbl_variants (st_world s)) \<union> set (variant_rows rows)"
proof -
  let ?s0 = "s\<lparr>st_metrics := (st_metrics s)\<lparr>products_synced := int (length (product_rows rows)),
                              variants_synced := int (length (variant_rows rows))\<rparr>\<rparr>"
  from bulk_upsert_tables[OF assms(1), of "ProductRows (product_rows rows)" ?s0]
  obtain s1 where 1: "bulk_upsert ev (ProductRows (product_rows rows)) ?s0 = (Inr (), s1)"
    and t1: "set (tbl_products (st_world s1)) \<subseteq> set (tbl_products (st_world s)) \<union> set (product_rows rows)"
            "set (tbl_variants (st_world s1)) \<subseteq> set (tbl_variants (st_world s))"
    by auto
  from bulk_upsert_tables[OF assms(1), of "ProductContentRows (content_rows rows)" s1]
  obtain s2 where 2: "bulk_upsert ev (ProductContentRows (content_rows rows)) s1 = (Inr (), s2)"
    and t2: "set (tbl_products (st_world s2)) \<subseteq> set (tbl_products (st_world s1))"
            "set (tbl_variants (st_world s2)) \<subseteq> set (tbl_variants (st_world s1))"
    by auto
  from bulk_upsert_tables[OF assms(1), of "VariantRows (variant_rows rows)" s2]
  obtain s3 where 3: "bulk_upsert ev (VariantRows (variant_rows rows)) s2 = (Inr (), s3)"
    and t3: "set (tbl_products (st_world s3)) \<subseteq> set (tbl_products (st_world s2))"
            "set (tbl_variants (st_world s3)) \<subseteq> set (tbl_variants (st_world s2)) \<union> set (variant_rows rows)"
    by auto
  from bulk_upsert_tables[OF assms(1), of "VariantContentRows (variant_content_rows rows)" s3]
  obtain s4 where 4: "bulk_upsert ev (VariantContentRows (variant_content_rows rows)) s3 = (Inr (), s4)"
    and t4: "set (tbl_products (st_world s4)) \<subseteq> set (tbl_products (st_world s3))"
            "set (tbl_variants (st_world s4)) \<subseteq> set (tbl_variants (st_world s3))"
    by auto
  have "upsert_stage ev shp bl ps s = (Inr (variant_rows rows), s4)"
    by (simp add: upsert_stage_def seq_def lift_def set_metrics_def ret_def assms(2) 1 2 3 4)
  with t1 t2 t3 t4 show ?thesis by blast
qed

lemma build_rows_product_rows:
  assumes "build_rows shp bl ps = Inr rows"
    and "\<forall>p\<in>set ps. \<exists>l. get_or_none p ''variants'' = JList l"
  shows "product_rows rows = map (\<lambda>p. product_row_of shp (get_or_none p ''id'') p) ps"
proof -
  from assms(1) obtain rs where
    m: "mapE (rows_of_product shp bl) ps = Inr rs" and
    v: "product_rows rows = map fst rs"
    by (auto simp: build_rows_def bindE_eq_Inr)
  from m assms(2) have "map fst rs = map (\<lambda>p. product_row_of shp (get_or_none p ''id'') p) ps"
  proof (induction ps arbitrary: rs)
    case Nil
    then show ?case by simp
  next
    case (Cons p ps)
    from Cons.prems obtain l where l: "get_or_none p ''variants'' = JList l" by auto
    from Cons.prems obtain r rs' where
      r: "rows_of_product shp bl p = Inr r" and
      rs': "mapE (rows_of_product shp bl) ps = Inr rs'" and
      rs: "rs = r # rs'"
      by (auto simp: bindE_eq_Inr)
    from rows_of_product_result[OF r l] Cons.IH[OF rs'] Cons.prems(2) rs
    show ?case by simp
  qed
  with v show ?thesis by simp
qed

lemma complete_variant_stripped:
  assumes "complete_variant v"
  shows "\<exists>i s k. py_item (stripped v) ''id'' = Inr i \<and> py_item (stripped v) ''sku'' = Inr s
           \<and> hash_key (get_or_none (stripped v) ''id'') = Inr k"
  using assms
  by (cases v)
     (auto simp: complete_variant_def wf_variant_def stripped_def entity_key_def delete_conv'
        bindE_eq_Inr split: sum.splits option.splits)

lemma variant_rows_of_returns:
  assumes "py_item v ''id'' = Inr i" "py_item v ''sku'' = Inr k"
  shows "\<exists>rc. variant_rows_of shp bl pid v = Inr rc"
  using assms by (simp add: variant_rows_of_def)

lemma attached_list_members:
  "x \<in> set (attached_list p vs) \<Longrightarrow> \<exists>v\<in>set vs. x = stripped v"
  by (auto simp: attached_list_def variants_for_def split: sum.splits)

lemma attached_product_items:
  assumes "entity_key p = Inr k"
  shows "py_item (attached_product p vs) ''id'' = Inr (get_or_none p ''id'')"
    and "py_item (attached_product p vs) ''variants'' = Inr (JList (attached_list p vs))"
  using assms entity_key_dict[OF assms]
  by (auto simp: attached_product_def attached_list_def entity_key_def update_conv' bindE_eq_Inr
      split: option.splits)

lemma build_rows_returns:
  assumes "\<forall>p\<in>set ps. wf_product p" and "\<forall>v\<in>set vs. complete_variant v"
  shows "\<exists>rows. build_rows shp bl (map (\<lambda>p. attached_product p vs) ps) = Inr rows"
proof -
  have "\<exists>r. rows_of_product shp bl p' = Inr r"
    if "p' \<in> set (map (\<lambda>p. attached_product p vs) ps)" for p'
  proof -
    from that obtain p where p: "p \<in> set ps" "p' = attached_product p vs" by auto
    with assms(1) obtain k where k: "entity_key p = Inr k" by (auto simp: wf_product_iff)
    have "\<exists>rc. variant_rows_of shp bl (get_or_none p ''id'') x = Inr rc"
      if "x \<in> set (attached_list p vs)" for x
      using attached_list_members[OF that] assms(2) complete_variant_stripped
        variant_rows_of_returns by metis
    then obtain pairs where
      "mapE (variant_rows_of shp bl (get_or_none p ''id'')) (attached_list p vs) = Inr pairs"
      using mapE_total[of "attached_list p vs" "variant_rows_of shp bl (get_or_none p ''id'')"]
      by auto
    then show ?thesis
      by (simp add: rows_of_product_def p(2) attached_product_items[OF k])
  qed
  then obtain rs where "mapE (rows_of_product shp bl) (map (\<lambda>p. attached_product p vs) ps) = Inr rs"
    using mapE_total[of "map (\<lambda>p. attached_product p vs) ps" "rows_of_product shp bl"] by auto
  then show ?thesis by (simp add: build_rows_def)
qed

text \<open>When the store answers every call, the base language pass returns.\<close>

lemma sync_base_returns:
  assumes nf: "\<forall>n. store_fault ev n = None"
    and wp: "\<forall>p\<in>set products. wf_product p"
    and wv: "\<forall>v\<in>set variants. complete_variant v"
    and hp: "\<forall>r\<in>set (tbl_products (st_world s)). \<exists>k. hash_key (pr_product_id r) = Inr k"
    and hv: "\<forall>r\<in>set (tbl_variants (st_world s)). \<exists>k. hash_key (vr_variant_id r) = Inr k"
  shows "\<exists>vp vv s'. sync_base ev shp bl products variants s = (Inr (vp, vv), s')"
proof -
  let ?ps = "map (\<lambda>p. attached_product p variants) products"
  have wv': "\<forall>v\<in>set variants. wf_variant v" using wv by (simp add: complete_variant_def)
  from attach_variants_total[OF wp wv'] obtain a where
    a: "attach_variants products variants (Some (sh_name shp)) = Inr a" by blast
  have ps: "att_products a = ?ps" using attach_variants_result[OF a] by simp
  note st = attach_stage_result[OF a, of s]
  obtain s1 where s1: "attach_stage shp products variants s = (Inr ?ps, s1)"
    and t1: "tbl_products (st_world s1) = tbl_products (st_world s)"
            "tbl_variants (st_world s1) = tbl_variants (st_world s)"
    using st ps by simp
  from build_rows_returns[OF wp wv] obtain rows where
    b: "build_rows shp bl ?ps = Inr rows" by blast
  from upsert_stage_returns[OF nf b, of s1] obtain s2 where
    u: "upsert_stage ev shp bl ?ps s1 = (Inr (variant_rows rows), s2)" and
    tp: "set (tbl_products (st_world s2)) \<subseteq> set (tbl_products (st_world s)) \<union> set (product_rows rows)" and
    tv: "set (tbl_variants (st_world s2)) \<subseteq> set (tbl_variants (st_world s)) \<union> set (variant_rows rows)"
    unfolding t1 by blast
  have keys: "\<forall>p\<in>set products. \<exists>k. entity_key p = Inr k" using wp by (simp add: wf_product_iff)
  have lists: "\<forall>p\<in>set ?ps. \<exists>l. get_or_none p ''variants'' = JList l"
    using keys attached_product_facts(1) by fastforce
  have wps: "\<forall>p\<in>set ?ps. wf_product p"
    using keys by (auto simp: wf_product_iff attached_product_facts(3))
  have hrp: "\<exists>k. hash_key (pr_product_id r) = Inr k" if "r \<in> set (product_rows rows)" for r
  proof -
    from that obtain p where p: "p \<in> set products"
      "r = product_row_of shp (get_or_none (attached_product p variants) ''id'')
             (attached_product p variants)"
      unfolding build_rows_product_rows[OF b lists] by auto
    from keys p(1) obtain k where k: "entity_key p = Inr k" by auto
    then have "hash_key (get_or_none p ''id'') = Inr k"
      by (auto simp: entity_key_def bindE_eq_Inr dest: py_item_get_or_none)
    with p(2) k show ?thesis by (simp add: product_row_of_def attached_product_facts(2)[OF k])
  qed
  have hrv: "\<exists>k. hash_key (vr_variant_id r) = Inr k" if "r \<in> set (variant_rows rows)" for r
  proof -
    from that obtain p x where p: "p \<in> set products" "x \<in> set (variants_of (attached_product p variants))"
      "r = variant_row_of shp (get_or_none (attached_product p variants) ''id'') x"
      unfolding build_rows_variant_rows[OF b lists] by auto
    from keys p(1) obtain k where k: "entity_key p = Inr k" by auto
    from p(2) have "x \<in> set (attached_list p variants)" by (simp add: attached_product_facts(4)[OF k])
    from attached_list_members[OF this] wv complete_variant_stripped
    have "\<exists>k. hash_key (get_or_none x ''id'') = Inr k" by metis
    with p(3) show ?thesis by (simp add: variant_row_of_def)
  qed
  have hp2: "\<forall>r\<in>set (tbl_products (st_world s2)). \<exists>k. hash_key (pr_product_id r) = Inr k"
    using tp hp hrp by blast
  from cleanup_products_returns[OF nf wps hp2, of shp] obtain P s3 where
    cp: "cleanup_products ev shp ?ps s2 = (Inr P, s3)" by blast
  have "tbl_variants (st_world s3) = tbl_variants (st_world s2)"
    using cleanup_products_result[OF cp] by simp
  with tv hv hrv have hv3: "\<forall>r\<in>set (tbl_variants (st_world s3)). \<exists>k. hash_key (vr_variant_id r) = Inr k"
    by auto
  have hvr: "\<forall>r\<in>set (variant_rows rows). \<exists>k. hash_key (vr_variant_id r) = Inr k"
    using hrv by blast
  from cleanup_variants_returns[OF nf hvr hv3, of shp] obtain V s4 where
    cv: "cleanup_variants ev shp (variant_rows rows) s3 = (Inr V, s4)" by blast
  have "sync_base ev shp bl products variants s = (Inr (P, V), s4)"
    by (simp add: sync_base_def cleanup_def seq_def s1 u cp cv ret_def)
  then show ?thesis by blast
qed

lemma ex_env_no_fault: "\<forall>n. store_fault ex_env n = None"
  by (simp add: ex_env_def)

lemma ex_products_wf: "\<forall>p\<in>set ex_products. wf_product p"
  by (simp add: example_defs)

lemma ex_variants_complete: "\<forall>v\<in>set ex_variants. complete_variant v"
  by (simp add: complete_variant_def example_defs)

lemma stored_state_hashable:
  "\<forall>r\<in>set (tbl_products (st_world stored_state)). \<exists>k. hash_key (pr_product_id r) = Inr k"
  "\<forall>r\<in>set (tbl_variants (st_world stored_state)). \<exists>k. hash_key (vr_variant_id r) = Inr k"
  by (simp_all add: store_defs)

text \<open>
  The theorem at the example fetch, on a store that holds rows the cleanup deletes: the
  valid ids are the products 1, 2 and the attached variants 11, 13.
\<close>

theorem valid_ids_from_base_fetch_witness:
  "\<exists>s'. sync_base ex_env ex_shop ''nl'' ex_products ex_variants stored_state =
          (Inr ({KNum 1, KNum 2}, {KNum 11, KNum 13}), s')"
proof -
  from sync_base_returns[OF ex_env_no_fault ex_products_wf ex_variants_complete stored_state_hashable]
  obtain vp vv s' where
    c: "sync_base ex_env ex_shop ''nl'' ex_products ex_variants stored_state = (Inr (vp, vv), s')"
    by blast
  have p: "product_keys ex_products = {KNum 1, KNum 2}"
    by (simp add: example_defs)
  have v: "keys_of (map (\<lambda>v. get_or_none v ''id'') (attached_variants ex_products ex_variants)) =
         {KNum 11, KNum 13}"
    by (simp add: keys_of_def attached_variants_def attached_list_def example_defs)
  from valid_ids_from_base_fetch[OF c] c show ?thesis unfolding p v by auto
qed

lemma mapE_Inl: "mapE f xs = Inl e \<Longrightarrow> \<exists>x\<in>set xs. f x = Inl e"
  by (induction xs) (auto simp: bindE_def split: sum.splits)

lemma mapE_Inr_all: "mapE f xs = Inr ys \<Longrightarrow> x \<in> set xs \<Longrightarrow> \<exists>y. f x = Inr y"
  by (auto simp: mapE_eq_Inr list_all2_conv_all_nth in_set_conv_nth)

lemma rel_key_dict: "rel_key v = Some k \<Longrightarrow> \<exists>kvs. v = JDict kvs"
  using relation_id_dict[of v] by (auto simp: rel_key_def split: sum.splits if_splits)

lemma attached_list_dicts: "x \<in> set (attached_list p vs) \<Longrightarrow> \<exists>kvs. x = JDict kvs"
  by (auto simp: attached_list_def variants_for_def stripped_def split: sum.splits
      dest!: rel_key_dict)

lemma variant_rows_of_dict:
  "variant_rows_of shp bl pid (JDict kvs) = Inl e \<Longrightarrow> e = KeyError ''id'' \<or> e = KeyError ''sku''"
  by (auto simp: variant_rows_of_def bindE_def split: sum.splits option.splits)

lemma variant_rows_of_lacks:
  "variant_rows_of shp bl pid v = Inr rc \<Longrightarrow> \<not> lacks v ''id'' \<and> \<not> lacks v ''sku''"
  by (auto simp: variant_rows_of_def lacks_def bindE_eq_Inr)

lemma build_rows_missing_key:
  assumes keys: "\<forall>p\<in>set products. \<exists>k. entity_key p = Inr k"
    and mis: "\<exists>v\<in>set (attached_variants products variants). lacks v ''id'' \<or> lacks v ''sku''"
  shows "build_rows shp bl (map (\<lambda>p. attached_product p variants) products) = Inl (KeyError ''id'')
       \<or> build_rows shp bl (map (\<lambda>p. attached_product p variants) products) = Inl (KeyError ''sku'')"
proof -
  let ?ps = "map (\<lambda>p. attached_product p variants) products"
  from mis obtain p v where p: "p \<in> set products" and v: "v \<in> set (attached_list p variants)"
    and l: "lacks v ''id'' \<or> lacks v ''sku''"
    by (auto simp: attached_variants_def)
  from keys p obtain k where k: "entity_key p = Inr k" by auto
  have no: "rows_of_product shp bl (attached_product p variants) \<noteq> Inr r" for r
  proof
    assume "rows_of_product shp bl (attached_product p variants) = Inr r"
    then obtain pairs where
      "mapE (variant_rows_of shp bl (get_or_none p ''id'')) (attached_list p variants) = Inr pairs"
      by (auto simp: rows_of_product_def attached_product_items[OF k] bindE_eq_Inr)
    from mapE_Inr_all[OF this v] l variant_rows_of_lacks show False by blast
  qed
  have "mapE (rows_of_product shp bl) ?ps \<noteq> Inr rs" for rs
  proof
    assume "mapE (rows_of_product shp bl) ?ps = Inr rs"
    from mapE_Inr_all[OF this, of "attached_product p variants"] p no show False by auto
  qed
  then obtain e where e: "mapE (rows_of_product shp bl) ?ps = Inl e"
    by (cases "mapE (rows_of_product shp bl) ?ps") auto
  from mapE_Inl[OF e] obtain q where q: "q \<in> set products"
    and qe: "rows_of_product shp bl (attached_product q variants) = Inl e" by auto
  from keys q obtain kq where kq: "entity_key q = Inr kq" by auto
  from qe have "mapE (variant_rows_of shp bl (get_or_none q ''id'')) (attached_list q variants) = Inl e"
    by (auto simp: rows_of_product_def attached_product_items[OF kq] bindE_def split: sum.splits)
  from mapE_Inl[OF this] obtain x where x: "x \<in> set (attached_list q variants)"
    and xe: "variant_rows_of shp bl (get_or_none q ''id'') x = Inl e" by auto
  from attached_list_dicts[OF x] xe variant_rows_of_dict have "e = KeyError ''id'' \<or> e = KeyError ''sku''"
    by blast
  with e show ?thesis by (auto simp: build_rows_def)
qed

lemma store_call_Inr:
  "store_call ev c effect w = (Inr x, w') \<longleftrightarrow>
     store_fault ev (length (calls w)) = None \<and>
     x = fst (effect (w\<lparr>calls := calls w @ [c]\<rparr>)) \<and>
     w' = snd (effect (w\<lparr>calls := calls w @ [c]\<rparr>))"
  by (auto simp: store_call_def Let_def split: option.splits prod.splits)

lemma store_call_Inl:
  "store_call ev c effect w = (Inl e, w') \<longleftrightarrow>
     (\<exists>msg. store_fault ev (length (calls w)) = Some msg \<and> e = StoreError msg) \<and>
     w' = w\<lparr>calls := calls w @ [c]\<rparr>"
  by (auto simp: store_call_def Let_def split: option.splits prod.splits)

lemma keeps_logs_seq:
  assumes "keeps_logs m" and "\<And>x. keeps_logs (f x)"
  shows "keeps_logs (seq m f)"
  using assms unfolding keeps_logs_def seq_def
  by (auto split: prod.splits sum.splits)

lemma keeps_logs_basic:
  "keeps_logs (ret x)" "keeps_logs (lift r)" "keeps_logs (set_metrics g)" "keeps_logs (print_lines ls)"
  by (auto simp: keeps_logs_def ret_def lift_def set_metrics_def print_lines_def)

lemma keeps_logs_on_store:
  assumes "\<And>w. tbl_sync_logs (snd (effect w)) = tbl_sync_logs w"
  shows "keeps_logs (on_store (store_call ev c effect))"
  unfolding keeps_logs_def
proof (intro allI impI)
  fix s r s'
  assume a: "on_store (store_call ev c effect) s = (r, s')"
  let ?w = "(st_world s)\<lparr>calls := calls (st_world s) @ [c]\<rparr>"
  show "tbl_sync_logs (st_world s') = tbl_sync_logs (st_world s)"
  proof (cases "store_fault ev (length (calls (st_world s)))")
    case None
    with a have "st_world s' = snd (effect ?w)"
      by (auto simp: on_store_def store_call_def Let_def split: prod.splits)
    with assms[of ?w] show ?thesis by simp
  next
    case (Some msg)
    with a have "st_world s' = ?w"
      by (auto simp: on_store_def store_call_def Let_def split: prod.splits)
    then show ?thesis by simp
  qed
qed

lemma keeps_logs_if:
  assumes "c \<Longrightarrow> keeps_logs a" and "\<not> c \<Longrightarrow> keeps_logs b"
  shows "keeps_logs (if c then a else b)"
  using assms by simp

lemma apply_upsert_logs [simp]: "tbl_sync_logs (snd (apply_upsert rs w)) = tbl_sync_logs w"
  by (cases rs) simp_all

lemma keeps_logs_bulk_upsert: "keeps_logs (bulk_upsert ev rs)"
  unfolding keeps_logs_def
proof (intro allI impI)
  fix s r s'
  assume a: "bulk_upsert ev rs s = (r, s')"
  have k: "keeps_logs (on_store (store_call ev (Upsert rs) (apply_upsert rs)))"
    by (rule keeps_logs_on_store) simp
  show "tbl_sync_logs (st_world s') = tbl_sync_logs (st_world s)"
  proof (cases "no_rows rs")
    case True
    with a show ?thesis by (simp add: bulk_upsert_def)
  next
    case False
    obtain r1 s1 where o: "on_store (store_call ev (Upsert rs) (apply_upsert rs)) s = (r1, s1)"
      by (cases "on_store (store_call ev (Upsert rs) (apply_upsert rs)) s")
    with k have "tbl_sync_logs (st_world s1) = tbl_sync_logs (st_world s)"
      by (auto simp: keeps_logs_def)
    with a o False show ?thesis
      by (cases r1) (auto simp: bulk_upsert_def)
  qed
qed

lemma keeps_logs_attach_stage: "keeps_logs (attach_stage shp ps vs)"
  unfolding attach_stage_def by (intro keeps_logs_seq keeps_logs_basic)

lemma keeps_logs_upsert_stage: "keeps_logs (upsert_stage ev shp bl ps)"
  unfolding upsert_stage_def by (intro keeps_logs_seq keeps_logs_basic keeps_logs_bulk_upsert)

lemma keeps_logs_cleanup: "keeps_logs (cleanup ev shp ps vrows)"
  unfolding cleanup_def cleanup_products_def cleanup_variants_def Let_def
  by (intro keeps_logs_seq keeps_logs_basic keeps_logs_if keeps_logs_on_store)
     (simp_all add: select_product_ids_def select_variant_ids_def delete_products_def
        delete_variants_def)

lemma keeps_logs_sync_base: "keeps_logs (sync_base ev shp bl ps vs)"
  unfolding sync_base_def
  by (intro keeps_logs_seq keeps_logs_attach_stage keeps_logs_upsert_stage keeps_logs_cleanup)

lemma keeps_logs_sync_language: "keeps_logs (sync_language ev shp lang vp vv lp lv)"
  unfolding sync_language_def Let_def
  by (intro keeps_logs_seq keeps_logs_basic keeps_logs_bulk_upsert)

lemma sync_languages_logs:
  assumes "sync_languages ev shp k sec bl vp vv langs s = Some (r, s')"
  shows "tbl_sync_logs (st_world s') = tbl_sync_logs (st_world s)"
  using assms
proof (induction langs arbitrary: s)
  case Nil
  then show ?case by simp
next
  case (Cons lang langs)
  show ?case
  proof (cases "lang = bl")
    case True
    with Cons show ?thesis by simp
  next
    case False
    with Cons.prems obtain fr where f: "fetch_pair ev k sec lang = Some fr"
      by (auto split: option.splits)
    show ?thesis
    proof (cases fr)
      case (Inl e)
      with Cons.prems False f show ?thesis by simp
    next
      case (Inr pv)
      obtain lp lv where pv: "pv = (lp, lv)" by (cases pv)
      obtain r1 s1 where l: "sync_language ev shp lang vp vv lp lv s = (r1, s1)"
        by (cases "sync_language ev shp lang vp vv lp lv s")
      have k1: "tbl_sync_logs (st_world s1) = tbl_sync_logs (st_world s)"
        using keeps_logs_sync_language l by (auto simp: keeps_logs_def)
      show ?thesis
      proof (cases r1)
        case (Inl e)
        with Cons.prems False f Inr pv l k1 show ?thesis by simp
      next
        case (Inr u)
        with Cons.prems False f \<open>fr = Inr pv\<close> pv l
        have "sync_languages ev shp k sec bl vp vv langs s1 = Some (r, s')" by simp
        from Cons.IH[OF this] k1 show ?thesis by simp
      qed
    qed
  qed
qed

lemma try_body_Inl_logs:
  assumes "try_body ev shp lid s = Some (Inl e, s')"
  shows "tbl_sync_logs (st_world s') = tbl_sync_logs (st_world s)"
proof (cases "resolve ev shp")
  case (Inl e1)
  with assms show ?thesis by (simp add: try_body_def)
next
  case (Inr cr)
  obtain k sec bl langs where cr: "cr = (k, sec, bl, langs)" by (cases cr)
  from assms Inr cr obtain fr where f: "fetch_pair ev k sec bl = Some fr"
    by (auto simp: try_body_def split: option.splits)
  show ?thesis
  proof (cases fr)
    case (Inl e1)
    with assms Inr cr f show ?thesis by (simp add: try_body_def)
  next
    case fr: (Inr pv)
    obtain ps vs where pv: "pv = (ps, vs)" by (cases pv)
    obtain r1 s1 where b: "sync_base ev shp bl ps vs s = (r1, s1)"
      by (cases "sync_base ev shp bl ps vs s")
    have k1: "tbl_sync_logs (st_world s1) = tbl_sync_logs (st_world s)"
      using keeps_logs_sync_base b by (auto simp: keeps_logs_def)
    show ?thesis
    proof (cases r1)
      case (Inl e1)
      with assms Inr cr f fr pv b k1 show ?thesis by (simp add: try_body_def)
    next
      case r1: (Inr vpv)
      obtain vp vv where vpv: "vpv = (vp, vv)" by (cases vpv)
      from assms Inr cr f fr pv b r1 vpv obtain r2 s2 where
        l: "sync_languages ev shp k sec bl vp vv langs s1 = Some (r2, s2)"
        by (auto simp: try_body_def split: option.splits)
      note k2 = sync_languages_logs[OF l]
      show ?thesis
      proof (cases r2)
        case (Inl e2)
        with assms Inr cr f fr pv b r1 vpv l k1 k2 show ?thesis by (simp add: try_body_def)
      next
        case r2: (Inr u)
        with assms Inr cr f fr pv b r1 vpv l
        have "on_store (store_call ev (UpdateLog lid ''success'' None (st_metrics s2))
                (update_log lid ''success'' None (st_metrics s2))) s2 = (Inl e, s')"
          by (simp add: try_body_def)
        then have "tbl_sync_logs (st_world s') = tbl_sync_logs (st_world s2)"
          by (simp add: on_store_call_Inl)
        with k1 k2 show ?thesis by simp
      qed
    qed
  qed
qed

lemma fresh_log_id_new: "r \<in> set logs \<Longrightarrow> log_id r < fresh_log_id logs"
  unfolding fresh_log_id_def by (induction logs) auto

lemma fresh_log_id_neq: "r \<in> set logs \<Longrightarrow> log_id r \<noteq> fresh_log_id logs"
  using fresh_log_id_new[of r logs] by simp

lemma insert_log_result:
  assumes "store_call ev (InsertLog sid) (insert_log sid) w = (Inr lid, w1)"
  shows "store_fault ev (length (calls w)) = None"
    and "calls w1 = calls w @ [InsertLog sid]"
    and "tbl_sync_logs w1 = tbl_sync_logs w @
           [\<lparr>log_id = lid, log_shop_id = sid, log_status = ''running'', log_completed = False,
             log_error_message = None, log_metrics = None\<rparr>]"
    and "\<forall>r\<in>set (tbl_sync_logs w). log_id r \<noteq> lid"
    and "tbl_products w1 = tbl_products w" and "tbl_variants w1 = tbl_variants w"
    and "tbl_product_content w1 = tbl_product_content w"
    and "tbl_variant_content w1 = tbl_variant_content w"
    and "console w1 = console w"
  using assms
  by (auto simp: store_call_Inr insert_log_def Let_def dest: fresh_log_id_neq)

text \<open>
  Claim C6, as the program has it. Let the audit row of a run have been inserted with id
  \<open>lid\<close>, let the body of the \<^verbatim>\<open>try\<close> raise \<open>e\<close> in state \<open>s\<close> (whatever the step that
  raised: the credentials, a fetch, the join, the row building, an upsert, a select, a
  delete or the final update), and let the store answer the update that the handler sends
  (lines 376-381), which is a call to the store like the others and can fail like them.
  Then \<^verbatim>\<open>sync_shop\<close> raises \<open>e\<close> to its caller, the handler's update is the last call of
  the run, and the audit row of the run is there with status \<^verbatim>\<open>error\<close>, the text of
  \<open>e\<close> and the metrics as they were when \<open>e\<close> was raised; no other audit row and no
  data table is changed by the handler.
\<close>

theorem error_closes_audit_record:
  assumes ins: "store_call ev (InsertLog (sh_id shp)) (insert_log (sh_id shp)) w = (Inr lid, w1)"
    and body: "try_body ev shp lid \<lparr>st_metrics = zero_metrics, st_world = w1\<rparr> = Some (Inl e, s)"
    and upd: "store_fault ev (length (calls (st_world s))) = None"
  shows "\<exists>w'. sync_shop ev shp w = Some (Inl e, w')
     \<and> calls w' = calls (st_world s) @
           [UpdateLog lid ''error'' (Some (exc_text ev e)) (st_metrics s)]
     \<and> (\<exists>r\<in>set (tbl_sync_logs w'). log_id r = lid \<and> log_shop_id r = sh_id shp)
     \<and> (\<forall>r\<in>set (tbl_sync_logs w'). log_id r = lid \<longrightarrow>
           log_status r = ''error'' \<and> log_completed r \<and>
           log_error_message r = Some (exc_text ev e) \<and> log_metrics r = Some (st_metrics s))
     \<and> (\<forall>r\<in>set (tbl_sync_logs w'). log_id r \<noteq> lid \<longrightarrow> r \<in> set (tbl_sync_logs w))
     \<and> tbl_products w' = tbl_products (st_world s)
     \<and> tbl_variants w' = tbl_variants (st_world s)"
proof -
  let ?c = "UpdateLog lid ''error'' (Some (exc_text ev e)) (st_metrics s)"
  let ?w' = "snd (update_log lid ''error'' (Some (exc_text ev e)) (st_metrics s)
                ((st_world s)\<lparr>calls := calls (st_world s) @ [?c]\<rparr>))"
  have h: "store_call ev ?c (update_log lid ''error'' (Some (exc_text ev e)) (st_metrics s))
             (st_world s) = (Inr (), ?w')"
    using upd by (simp add: store_call_Inr)
  have run: "sync_shop ev shp w = Some (Inl e, ?w')"
    by (simp add: sync_shop_def ins body h)
  have logs: "tbl_sync_logs (st_world s) = tbl_sync_logs w1"
    using try_body_Inl_logs[OF body] by simp
  note i = insert_log_result[OF ins]
  show ?thesis
    using run logs i(3,4) by (auto simp: update_log_def)
qed

text \<open>
  If the store fails the handler's own update, the audit row keeps its status and the
  exception of the update is the one the caller gets.
\<close>

lemma handler_update_fails:
  assumes ins: "store_call ev (InsertLog (sh_id shp)) (insert_log (sh_id shp)) w = (Inr lid, w1)"
    and body: "try_body ev shp lid \<lparr>st_metrics = zero_metrics, st_world = w1\<rparr> = Some (Inl e, s)"
    and upd: "store_fault ev (length (calls (st_world s))) = Some msg"
  shows "\<exists>w'. sync_shop ev shp w = Some (Inl (StoreError msg), w')
     \<and> tbl_sync_logs w' = tbl_sync_logs w1"
proof -
  let ?c = "UpdateLog lid ''error'' (Some (exc_text ev e)) (st_metrics s)"
  have h: "store_call ev ?c (update_log lid ''error'' (Some (exc_text ev e)) (st_metrics s))
             (st_world s) = (Inl (StoreError msg), (st_world s)\<lparr>calls := calls (st_world s) @ [?c]\<rparr>)"
    using upd by (simp add: store_call_Inl)
  have "sync_shop ev shp w =
          Some (Inl (StoreError msg), (st_world s)\<lparr>calls := calls (st_world s) @ [?c]\<rparr>)"
    by (simp add: sync_shop_def ins body h)
  then show ?thesis using try_body_Inl_logs[OF body] by simp
qed

lemma resolve_ex_shop:
  "getenv ev = getenv ex_env \<Longrightarrow> upper ev = upper ex_env \<Longrightarrow>
   resolve ev ex_shop = Inr (''key'', ''secret'', ''nl'', [''nl'', ''de''])"
  by (simp add: resolve_def ex_env_def ex_shop_def)

lemma open_audit_empty:
  "store_fault ev 0 = None \<Longrightarrow>
   store_call ev (InsertLog (sh_id ex_shop)) (insert_log (sh_id ex_shop)) empty_world =
     (Inr 1, empty_world\<lparr>calls := [InsertLog (JInt 1)],
        tbl_sync_logs := [\<lparr>log_id = 1, log_shop_id = JInt 1, log_status = ''running'',
          log_completed = False, log_error_message = None, log_metrics = None\<rparr>]\<rparr>)"
  by (simp add: store_call_def insert_log_def fresh_log_id_def empty_world_def ex_shop_def Let_def)

lemma fetch_pair_down:
  "fetch_pair down_env k sec lang = Some (Inl (RequestException ''timed out''))"
  by (simp add: fetch_pair_def fetch_products_def fetch_variants_def down_env_def
      fetch_pages_all_fail[of failing_source _ "''timed out''" "''timed out''" "''timed out''"]
      failing_source_def)

lemma sync_base_missing_key:
  assumes att: "attach_variants products variants (Some (sh_name shp)) = Inr a"
    and mis: "\<exists>v\<in>set (attached_variants products variants). lacks v ''id'' \<or> lacks v ''sku''"
  shows "\<exists>k. (k = ''id'' \<or> k = ''sku'')
     \<and> build_rows shp bl (att_products a) = Inl (KeyError k)
     \<and> sync_base ev shp bl products variants s =
         (Inl (KeyError k),
          s\<lparr>st_metrics := (st_metrics s)\<lparr>products_fetched := int (length products),
               variants_fetched := int (length variants),
               variants_filtered :=
                 int (length variants) - (\<Sum>p\<leftarrow>products. int (length (attached_list p variants)))\<rparr>,
            st_world := (st_world s)\<lparr>console := console (st_world s) @ att_warnings a\<rparr>\<rparr>)"
proof -
  have keys: "\<forall>p\<in>set products. \<exists>k. entity_key p = Inr k"
    using attach_products_keys[OF att] by blast
  have ps: "att_products a = map (\<lambda>p. attached_product p variants) products"
    using attach_variants_result[OF att] by simp
  from build_rows_missing_key[OF keys mis, of shp bl] obtain k where
    k: "k = ''id'' \<or> k = ''sku''" and b: "build_rows shp bl (att_products a) = Inl (KeyError k)"
    unfolding ps by blast
  have "upsert_stage ev shp bl (att_products a) t = (Inl (KeyError k), t)" for t
    by (simp add: upsert_stage_def seq_def lift_def b)
  then have "sync_base ev shp bl products variants s =
         (Inl (KeyError k),
          s\<lparr>st_metrics := (st_metrics s)\<lparr>products_fetched := int (length products),
               variants_fetched := int (length variants),
               variants_filtered :=
                 int (length variants) - (\<Sum>p\<leftarrow>products. int (length (attached_list p variants)))\<rparr>,
            st_world := (st_world s)\<lparr>console := console (st_world s) @ att_warnings a\<rparr>\<rparr>)"
    by (simp add: sync_base_def seq_def attach_stage_result[OF att])
  with k b show ?thesis by blast
qed

text \<open>
  Claim C9, as the program has it. Let a run have opened its audit row, resolved its
  credentials, fetched the base language and joined the variants, and let some attached
  variant have no \<^verbatim>\<open>sku\<close> key or no \<^verbatim>\<open>id\<close> key (\<open>lacks\<close>: the key is absent from the
  dictionary; a key that is there with a null or an empty value is not missing for
  \<^verbatim>\<open>v["id"]\<close> and \<^verbatim>\<open>v["sku"]\<close>, lines 238 and 239). Then the row building raises
  \<^verbatim>\<open>KeyError\<close> for one of the two keys, and the run raises it: the only calls the store
  receives are the insert of the audit row and the handler's update, so no upsert is
  attempted and the four data tables are as before; the store answering that update, the
  audit row has status \<^verbatim>\<open>error\<close> and the text of the \<^verbatim>\<open>KeyError\<close>.
\<close>

theorem missing_key_aborts_run:
  assumes ins: "store_call ev (InsertLog (sh_id shp)) (insert_log (sh_id shp)) w = (Inr lid, w1)"
    and res: "resolve ev shp = Inr (api_key, api_secret, base_lang, active_langs)"
    and fet: "fetch_pair ev api_key api_secret base_lang = Some (Inr (products, variants))"
    and att: "attach_variants products variants (Some (sh_name shp)) = Inr a"
    and mis: "\<exists>v\<in>set (attached_variants products variants). lacks v ''id'' \<or> lacks v ''sku''"
    and upd: "store_fault ev (Suc (length (calls w))) = None"
  shows "\<exists>k w'. (k = ''id'' \<or> k = ''sku'')
     \<and> build_rows shp base_lang (att_products a) = Inl (KeyError k)
     \<and> sync_shop ev shp w = Some (Inl (KeyError k), w')
     \<and> calls w' = calls w @
           [InsertLog (sh_id shp),
            UpdateLog lid ''error'' (Some (exc_text ev (KeyError k)))
              (joined_metrics products variants)]
     \<and> (\<exists>r\<in>set (tbl_sync_logs w'). log_id r = lid)
     \<and> (\<forall>r\<in>set (tbl_sync_logs w'). log_id r = lid \<longrightarrow>
           log_status r = ''error'' \<and> log_error_message r = Some (exc_text ev (KeyError k)))
     \<and> tbl_products w' = tbl_products w \<and> tbl_product_content w' = tbl_product_content w
     \<and> tbl_variants w' = tbl_variants w \<and> tbl_variant_content w' = tbl_variant_content w"
proof -
  let ?s0 = "\<lparr>st_metrics = zero_metrics, st_world = w1\<rparr>"
  let ?s1 = "\<lparr>st_metrics = joined_metrics products variants,
             st_world = w1\<lparr>console := console w1 @ att_warnings a\<rparr>\<rparr>"
  note i = insert_log_result[OF ins]
  from sync_base_missing_key[OF att mis, of base_lang ev ?s0] obtain k where
    k: "k = ''id'' \<or> k = ''sku''" and
    b: "build_rows shp base_lang (att_products a) = Inl (KeyError k)" and
    sb: "sync_base ev shp base_lang products variants ?s0 = (Inl (KeyError k), ?s1)"
    by (auto simp: joined_metrics_def)
  have body: "try_body ev shp lid ?s0 = Some (Inl (KeyError k), ?s1)"
    by (simp add: try_body_def res fet sb)
  let ?c = "UpdateLog lid ''error'' (Some (exc_text ev (KeyError k))) (joined_metrics products variants)"
  let ?w' = "snd (update_log lid ''error'' (Some (exc_text ev (KeyError k)))
                (joined_metrics products variants)
                ((st_world ?s1)\<lparr>calls := calls (st_world ?s1) @ [?c]\<rparr>))"
  have h: "store_call ev ?c (update_log lid ''error'' (Some (exc_text ev (KeyError k)))
             (joined_metrics products variants)) (st_world ?s1) = (Inr (), ?w')"
    using upd i(2) by (simp add: store_call_Inr)
  have run: "sync_shop ev shp w = Some (Inl (KeyError k), ?w')"
    using h by (simp add: sync_shop_def ins body)
  show ?thesis
    using k b run i by (auto simp: update_log_def)
qed

lemma fetch_pair_no_sku:
  "fetch_pair no_sku_env k sec lang = Some (Inr no_sku_fetched)"
proof -
  have p: "fetch_pages (no_sku_api k sec lang ''products'') ''products'' 1 [] [] =
        Some (Inr ([] @ fst no_sku_fetched), [] @ [Request 1 0])"
    by (rule fetch_pages_last[where b="[mk_product 1]"
          and body="JDict [(''products'', JList [mk_product 1])]"])
       (simp_all add: no_sku_api_def no_sku_fetched_def mk_product_def normalize_entity_def LIMIT_def)
  have v: "fetch_pages (no_sku_api k sec lang ''variants'') ''variants'' 1 [] [] =
        Some (Inr ([] @ snd no_sku_fetched), [] @ [Request 1 0])"
    by (rule fetch_pages_last[where b="[no_sku_variant]"
          and body="JDict [(''variants'', JList [no_sku_variant])]"])
       (simp_all add: no_sku_api_def no_sku_fetched_def no_sku_variant_def normalize_entity_def
          LIMIT_def)
  show ?thesis
    using p v
    by (simp add: fetch_pair_def fetch_products_def fetch_variants_def no_sku_env_def)
qed

lemma no_sku_attach:
  "attach_variants (fst no_sku_fetched) (snd no_sku_fetched) (Some ''nl'') = Inr no_sku_attached"
  by (simp add: attach_variants_def no_sku_fetched_def no_sku_attached_def relation_id_def
      append_to_def lookup_list_def id_set_def entity_key_def set_variants_def)

text \<open>The theorem at a fetch whose only variant has no \<^verbatim>\<open>sku\<close> key.\<close>

theorem missing_key_aborts_run_witness:
  "\<exists>w'. sync_shop no_sku_env ex_shop empty_world = Some (Inl (KeyError ''sku''), w')
     \<and> calls w' =
         [InsertLog (JInt 1),
          UpdateLog 1 ''error'' (Some (CHR 39 # ''sku'' @ [CHR 39]))
            (zero_metrics\<lparr>products_fetched := 1, variants_fetched := 1\<rparr>)]
     \<and> (\<exists>r\<in>set (tbl_sync_logs w'). log_id r = 1 \<and> log_status r = ''error'')"
proof -
  let ?w1 = "empty_world\<lparr>calls := [InsertLog (JInt 1)],
        tbl_sync_logs := [\<lparr>log_id = 1, log_shop_id = JInt 1, log_status = ''running'',
          log_completed = False, log_error_message = None, log_metrics = None\<rparr>]\<rparr>"
  have nf: "store_fault no_sku_env n = None" for n by (simp add: no_sku_env_def ex_env_def)
  have ins: "store_call no_sku_env (InsertLog (sh_id ex_shop)) (insert_log (sh_id ex_shop)) empty_world
      = (Inr 1, ?w1)"
    by (rule open_audit_empty[OF nf])
  have res: "resolve no_sku_env ex_shop = Inr (''key'', ''secret'', ''nl'', [''nl'', ''de''])"
    by (rule resolve_ex_shop) (simp_all add: no_sku_env_def)
  have fet: "fetch_pair no_sku_env ''key'' ''secret'' ''nl'' =
      Some (Inr (fst no_sku_fetched, snd no_sku_fetched))"
    by (simp add: fetch_pair_no_sku)
  have att: "attach_variants (fst no_sku_fetched) (snd no_sku_fetched) (Some (sh_name ex_shop)) =
      Inr no_sku_attached"
    by (simp add: no_sku_attach ex_shop_def)
  have al: "attached_variants (fst no_sku_fetched) (snd no_sku_fetched) =
      [JDict [(''id'', JInt 11), (''image'', JNull)]]"
    by (simp add: attached_variants_def attached_list_def no_sku_fetched_def entity_key_def
        variants_for_def rel_key_def relation_id_def stripped_def)
  have mis: "\<exists>v\<in>set (attached_variants (fst no_sku_fetched) (snd no_sku_fetched)).
      lacks v ''id'' \<or> lacks v ''sku''"
    unfolding al by (simp add: lacks_def)
  have b: "build_rows ex_shop ''nl'' (att_products no_sku_attached) = Inl (KeyError ''sku'')"
    by (simp add: build_rows_def rows_of_product_def variant_rows_of_def no_sku_attached_def)
  have m: "joined_metrics (fst no_sku_fetched) (snd no_sku_fetched) =
      zero_metrics\<lparr>products_fetched := 1, variants_fetched := 1\<rparr>"
    using al by (simp add: joined_metrics_def attached_variants_def no_sku_fetched_def zero_metrics_def)
  from missing_key_aborts_run[OF ins res fet att mis nf] b show ?thesis
    unfolding m by (auto simp: empty_world_def ex_shop_def no_sku_env_def ex_env_def)
qed








lemma seq_total:
  assumes "\<And>s. \<exists>x s'. m s = (Inr x, s')" and "\<And>x s. \<exists>y s'. f x s = (Inr y, s')"
  shows "\<exists>y s'. seq m f s = (Inr y, s')"
proof -
  from assms(1)[of s] obtain x s1 where "m s = (Inr x, s1)" by blast
  with assms(2)[of x s1] show ?thesis by (auto simp: seq_def)
qed

lemma complete_variant_key: "complete_variant v \<Longrightarrow> wf_product v"
  by (simp add: complete_variant_def wf_product_def)

lemma sync_language_returns:
  assumes nf: "\<forall>n. store_fault ev n = None"
    and "\<forall>p\<in>set lp. wf_product p" and "\<forall>v\<in>set lv. wf_product v"
  shows "\<exists>s'. sync_language ev shp lang vp vv lp lv s = (Inr (), s')"
proof -
  have "\<exists>y. localized_product_row shp lang vp p = Inr y" if "p \<in> set lp" for p
  proof -
    from that assms(2) obtain x k where "py_item p ''id'' = Inr x" "hash_key x = Inr k"
      by (auto simp: wf_product_iff entity_key_def bindE_eq_Inr)
    then show ?thesis by (simp add: localized_product_row_def)
  qed
  then obtain prs where p: "mapE (localized_product_row shp lang vp) lp = Inr prs"
    using mapE_total[of lp "localized_product_row shp lang vp"] by auto
  have "\<exists>y. localized_variant_row shp lang vv v = Inr y" if "v \<in> set lv" for v
  proof -
    from that assms(3) obtain x k where "py_item v ''id'' = Inr x" "hash_key x = Inr k"
      by (auto simp: wf_product_iff entity_key_def bindE_eq_Inr)
    then show ?thesis by (simp add: localized_variant_row_def)
  qed
  then obtain vrs where v: "mapE (localized_variant_row shp lang vv) lv = Inr vrs"
    using mapE_total[of lv "localized_variant_row shp lang vv"] by auto
  have b: "\<exists>t'. bulk_upsert ev rs t = (Inr (), t')" for rs t
    using bulk_upsert_returns[OF nf, of rs t] by auto
  have "\<exists>y s'. sync_language ev shp lang vp vv lp lv s = (Inr y, s')"
    unfolding sync_language_def p v Let_def
    by (intro seq_total) (simp_all add: lift_def print_lines_def b)
  then show ?thesis by auto
qed

lemma sync_languages_returns:
  assumes nf: "\<forall>n. store_fault ev n = None"
    and "\<forall>lang\<in>set langs. \<exists>lp lv. fetch_pair ev k sec lang = Some (Inr (lp, lv)) \<and>
           (\<forall>p\<in>set lp. wf_product p) \<and> (\<forall>v\<in>set lv. wf_product v)"
  shows "\<exists>s'. sync_languages ev shp k sec bl vp vv langs s = Some (Inr (), s')"
  using assms(2)
proof (induction langs arbitrary: s)
  case Nil
  then show ?case by simp
next
  case (Cons lang langs)
  then obtain lp lv where f: "fetch_pair ev k sec lang = Some (Inr (lp, lv))"
    and w: "\<forall>p\<in>set lp. wf_product p" "\<forall>v\<in>set lv. wf_product v" by auto
  from sync_language_returns[OF nf w, of shp lang vp vv s] obtain s1 where
    l: "sync_language ev shp lang vp vv lp lv s = (Inr (), s1)" ..
  from Cons.IH[of s] Cons.IH[of s1] Cons.prems f l show ?case by simp
qed

text \<open>When the store answers every call and the fetches return well-formed entities,
  the pipeline of a shop returns.\<close>

lemma sync_shop_succeeds:
  assumes nf: "\<forall>n. store_fault ev n = None"
    and res: "resolve ev shp = Inr (k, sec, bl, langs)"
    and fet: "\<forall>lang\<in>set (bl # langs). \<exists>ps vs. fetch_pair ev k sec lang = Some (Inr (ps, vs)) \<and>
           (\<forall>p\<in>set ps. wf_product p) \<and> (\<forall>v\<in>set vs. complete_variant v)"
    and hp: "\<forall>r\<in>set (tbl_products w). \<exists>k. hash_key (pr_product_id r) = Inr k"
    and hv: "\<forall>r\<in>set (tbl_variants w). \<exists>k. hash_key (vr_variant_id r) = Inr k"
  shows "\<exists>w'. sync_shop ev shp w = Some (Inr (), w')"
proof -
  let ?lid = "fst (insert_log (sh_id shp) (w\<lparr>calls := calls w @ [InsertLog (sh_id shp)]\<rparr>))"
  let ?w1 = "snd (insert_log (sh_id shp) (w\<lparr>calls := calls w @ [InsertLog (sh_id shp)]\<rparr>))"
  let ?s0 = "\<lparr>st_metrics = zero_metrics, st_world = ?w1\<rparr>"
  have ins: "store_call ev (InsertLog (sh_id shp)) (insert_log (sh_id shp)) w = (Inr ?lid, ?w1)"
    using nf by (simp add: store_call_Inr)
  note i = insert_log_result[OF ins]
  from fet obtain ps vs where f: "fetch_pair ev k sec bl = Some (Inr (ps, vs))"
    and wp: "\<forall>p\<in>set ps. wf_product p" and wv: "\<forall>v\<in>set vs. complete_variant v" by auto
  from sync_base_returns[OF nf wp wv, of ?s0 shp bl] hp hv i(5,6) obtain vp vv s1 where
    b: "sync_base ev shp bl ps vs ?s0 = (Inr (vp, vv), s1)" by auto
  have "\<forall>lang\<in>set langs. \<exists>lp lv. fetch_pair ev k sec lang = Some (Inr (lp, lv)) \<and>
           (\<forall>p\<in>set lp. wf_product p) \<and> (\<forall>v\<in>set lv. wf_product v)"
    using fet complete_variant_key by (metis list.set_intros(2))
  from sync_languages_returns[OF nf this, of shp bl vp vv s1] obtain s2 where
    l: "sync_languages ev shp k sec bl vp vv langs s1 = Some (Inr (), s2)" ..
  have "\<exists>s3. on_store (store_call ev (UpdateLog ?lid ''success'' None (st_metrics s2))
                (update_log ?lid ''success'' None (st_metrics s2))) s2 = (Inr (), s3)"
    using nf by (simp add: on_store_call_Inr)
  then obtain s3 where u: "on_store (\<lambda>w. store_call ev (UpdateLog ?lid ''success'' None (st_metrics s2))
                (update_log ?lid ''success'' None (st_metrics s2)) w) s2 = (Inr (), s3)" by auto
  have "try_body ev shp ?lid ?s0 = Some (Inr (), s3)"
    by (simp add: try_body_def res f b l u)
  then show ?thesis by (simp add: sync_shop_def ins)
qed

lemma ex_fetch_products:
  "fetch_products (api ex_env k sec lang ''products'') =
     Some (Inr ([] @ map with_image ex_products), [] @ [Request 1 0])"
  unfolding fetch_products_def
  by (rule fetch_pages_last[where b="ex_products" and body="JDict [(''products'', JList ex_products)]"])
     (simp_all add: ex_env_def ex_api_def with_image_def normalize_entity_def LIMIT_def example_defs)

lemma ex_fetch_variants:
  "fetch_variants (api ex_env k sec lang ''variants'') =
     Some (Inr ([] @ map with_image ex_variants), [] @ [Request 1 0])"
  unfolding fetch_variants_def
  by (rule fetch_pages_last[where b="ex_variants" and body="JDict [(''variants'', JList ex_variants)]"])
     (simp_all add: ex_env_def ex_api_def with_image_def normalize_entity_def LIMIT_def example_defs)

lemma ex_fetch_pair:
  "fetch_pair ex_env k sec lang = Some (Inr (map with_image ex_products, map with_image ex_variants))"
  using ex_fetch_products[of k sec lang] ex_fetch_variants[of k sec lang]
  by (simp add: fetch_pair_def)


text \<open>With no shop in the roster the executor cannot be created.\<close>

lemma fleet_empty_roster:
  "run_fleet ev [] w = Some (Inl (ValueError ''max_workers must be greater than 0''), w)"
  by (simp add: run_fleet_def)

lemma upsert_fault_base:
  "\<exists>s. sync_base upsert_fault_env ex_shop ''nl'' (map with_image ex_products)
          (map with_image ex_variants) \<lparr>st_metrics = zero_metrics, st_world = opened_world\<rparr> =
          (Inl (StoreError ''connection lost''), s)
     \<and> st_metrics s =
          \<lparr>products_fetched = 2, variants_fetched = 4, products_synced = 2, variants_synced = 2,
           products_deleted = 0, variants_deleted = 0, variants_filtered = 2\<rparr>
     \<and> length (calls (st_world s)) = 2"
  by (simp add: sync_base_def seq_def attach_stage_def set_metrics_def lift_def print_lines_def
      ret_def upsert_stage_def bulk_upsert_def on_store_def store_call_def build_rows_def
      rows_of_product_def variant_rows_of_def count_attached_def
      attach_variants_def ex_products_def ex_variants_def mk_product_def mk_variant_def
      loose_variant_def relation_id_def append_to_def lookup_list_def with_image_def
      normalize_entity_def id_set_def entity_key_def set_variants_def
      upsert_fault_env_def ex_env_def opened_world_def empty_world_def zero_metrics_def
      ex_shop_def Let_def)

text \<open>
  The theorem at two runs: one whose remote API fails every request, so that the metrics
  are still zero, and one whose store fails the first upsert, after the fetch, the join
  and the row building have set their counts.
\<close>

theorem error_closes_audit_record_witness:
  "(\<exists>w'. sync_shop down_env ex_shop empty_world = Some (Inl (RequestException ''timed out''), w')
     \<and> (\<exists>r\<in>set (tbl_sync_logs w'). log_id r = 1 \<and> log_status r = ''error'' \<and>
           log_error_message r = Some ''timed out'' \<and> log_metrics r = Some zero_metrics))
   \<and> (\<exists>w'. sync_shop upsert_fault_env ex_shop empty_world =
              Some (Inl (StoreError ''connection lost''), w')
     \<and> (\<exists>r\<in>set (tbl_sync_logs w'). log_id r = 1 \<and> log_status r = ''error'' \<and>
           log_error_message r = Some ''connection lost'' \<and>
           log_metrics r =
             Some \<lparr>products_fetched = 2, variants_fetched = 4, products_synced = 2,
                   variants_synced = 2, products_deleted = 0, variants_deleted = 0,
                   variants_filtered = 2\<rparr>))"
proof
  have nf: "store_fault down_env n = None" for n by (simp add: down_env_def ex_env_def)
  have ins: "store_call down_env (InsertLog (sh_id ex_shop)) (insert_log (sh_id ex_shop)) empty_world
      = (Inr 1, opened_world)"
    unfolding opened_world_def by (rule open_audit_empty[OF nf])
  have res: "resolve down_env ex_shop = Inr (''key'', ''secret'', ''nl'', [''nl'', ''de''])"
    by (rule resolve_ex_shop) (simp_all add: down_env_def)
  have body: "try_body down_env ex_shop 1 \<lparr>st_metrics = zero_metrics, st_world = opened_world\<rparr> =
      Some (Inl (RequestException ''timed out''), \<lparr>st_metrics = zero_metrics, st_world = opened_world\<rparr>)"
    by (simp add: try_body_def res fetch_pair_down)
  from error_closes_audit_record[OF ins body nf]
  show "\<exists>w'. sync_shop down_env ex_shop empty_world = Some (Inl (RequestException ''timed out''), w')
     \<and> (\<exists>r\<in>set (tbl_sync_logs w'). log_id r = 1 \<and> log_status r = ''error'' \<and>
           log_error_message r = Some ''timed out'' \<and> log_metrics r = Some zero_metrics)"
    by (auto simp: down_env_def ex_env_def)
next
  let ?s0 = "\<lparr>st_metrics = zero_metrics, st_world = opened_world\<rparr>"
  let ?m = "\<lparr>products_fetched = 2, variants_fetched = 4, products_synced = 2,
             variants_synced = 2, products_deleted = 0, variants_deleted = 0,
             variants_filtered = 2\<rparr>"
  have ins: "store_call upsert_fault_env (InsertLog (sh_id ex_shop)) (insert_log (sh_id ex_shop))
      empty_world = (Inr 1, opened_world)"
    unfolding opened_world_def by (rule open_audit_empty) (simp add: upsert_fault_env_def)
  have res: "resolve upsert_fault_env ex_shop = Inr (''key'', ''secret'', ''nl'', [''nl'', ''de''])"
    by (rule resolve_ex_shop) (simp_all add: upsert_fault_env_def)
  have a: "api upsert_fault_env = api ex_env" by (simp add: upsert_fault_env_def)
  have fet: "fetch_pair upsert_fault_env ''key'' ''secret'' ''nl'' =
      Some (Inr (map with_image ex_products, map with_image ex_variants))"
    unfolding fetch_pair_def a by (rule ex_fetch_pair[unfolded fetch_pair_def])
  from upsert_fault_base obtain s where
    b: "sync_base upsert_fault_env ex_shop ''nl'' (map with_image ex_products)
          (map with_image ex_variants) ?s0 = (Inl (StoreError ''connection lost''), s)" and
    m: "st_metrics s = ?m" and c: "length (calls (st_world s)) = 2"
    by blast
  have body: "try_body upsert_fault_env ex_shop 1 ?s0 = Some (Inl (StoreError ''connection lost''), s)"
    by (simp add: try_body_def res fet b)
  have upd: "store_fault upsert_fault_env (length (calls (st_world s))) = None"
    unfolding c by (simp add: upsert_fault_env_def)
  from error_closes_audit_record[OF ins body upd] m
  show "\<exists>w'. sync_shop upsert_fault_env ex_shop empty_world =
              Some (Inl (StoreError ''connection lost''), w')
     \<and> (\<exists>r\<in>set (tbl_sync_logs w'). log_id r = 1 \<and> log_status r = ''error'' \<and>
           log_error_message r = Some ''connection lost'' \<and> log_metrics r = Some ?m)"
    by (auto simp: upsert_fault_env_def ex_env_def)
qed

text \<open>
  Claim C6 as stated has the audit row updated whenever a step raises. The update of the
  handler is itself a call to the store. In a run whose fetch times out and whose store
  fails every call after the insert of the audit row, the handler's update fails: the
  audit row keeps the status \<^verbatim>\<open>running\<close>, without message and metrics, and the caller
  gets the exception of the update, not the timeout.
\<close>

theorem handler_fault_counterexample:
  "sync_shop lost_store_env ex_shop empty_world =
     Some (Inl (StoreError ''connection lost''),
           empty_world\<lparr>calls := [InsertLog (JInt 1),
                                  UpdateLog 1 ''error'' (Some ''timed out'') zero_metrics],
             tbl_sync_logs := [\<lparr>log_id = 1, log_shop_id = JInt 1, log_status = ''running'',
               log_completed = False, log_error_message = None, log_metrics = None\<rparr>]\<rparr>)"
proof -
  have ins: "store_call lost_store_env (InsertLog (sh_id ex_shop)) (insert_log (sh_id ex_shop))
      empty_world =
     (Inr 1, empty_world\<lparr>calls := [InsertLog (JInt 1)],
        tbl_sync_logs := [\<lparr>log_id = 1, log_shop_id = JInt 1, log_status = ''running'',
          log_completed = False, log_error_message = None, log_metrics = None\<rparr>]\<rparr>)"
    by (rule open_audit_empty) (simp add: lost_store_env_def)
  have res: "resolve lost_store_env ex_shop = Inr (''key'', ''secret'', ''nl'', [''nl'', ''de''])"
    by (rule resolve_ex_shop) (simp_all add: lost_store_env_def down_env_def)
  have a: "api lost_store_env = api down_env" by (simp add: lost_store_env_def)
  have fp: "fetch_pair lost_store_env k sec lang = fetch_pair down_env k sec lang" for k sec lang
    unfolding fetch_pair_def a ..
  let ?w1 = "empty_world\<lparr>calls := [InsertLog (JInt 1)],
        tbl_sync_logs := [\<lparr>log_id = 1, log_shop_id = JInt 1, log_status = ''running'',
          log_completed = False, log_error_message = None, log_metrics = None\<rparr>]\<rparr>"
  let ?c = "UpdateLog 1 ''error'' (Some ''timed out'') zero_metrics"
  have body: "try_body lost_store_env ex_shop 1 \<lparr>st_metrics = zero_metrics, st_world = ?w1\<rparr> =
      Some (Inl (RequestException ''timed out''), \<lparr>st_metrics = zero_metrics, st_world = ?w1\<rparr>)"
    by (simp add: try_body_def res fp fetch_pair_down)
  have t: "exc_text lost_store_env (RequestException ''timed out'') = ''timed out''"
    by (simp add: lost_store_env_def down_env_def ex_env_def)
  have h: "store_call lost_store_env ?c (update_log 1 ''error'' (Some ''timed out'') zero_metrics) ?w1 =
      (Inl (StoreError ''connection lost''), ?w1\<lparr>calls := calls ?w1 @ [?c]\<rparr>)"
    by (simp add: store_call_def lost_store_env_def Let_def)
  have "sync_shop lost_store_env ex_shop empty_world =
      Some (Inl (StoreError ''connection lost''), ?w1\<lparr>calls := calls ?w1 @ [?c]\<rparr>)"
    using ins body t h by (simp add: sync_shop_def)
  then show ?thesis by (simp add: empty_world_def)
qed

lemma null_sku_fetch_pair:
  "fetch_pair null_sku_env k sec lang =
     Some (Inr ([with_image (mk_product 1)], [with_image (mk_variant 11 JNull 1)]))"
proof -
  have p: "fetch_pages (null_sku_api k sec lang ''products'') ''products'' 1 [] [] =
        Some (Inr ([] @ [with_image (mk_product 1)]), [] @ [Request 1 0])"
    by (rule fetch_pages_last[where b="[mk_product 1]"
          and body="JDict [(''products'', JList [mk_product 1])]"])
       (simp_all add: null_sku_api_def with_image_def mk_product_def normalize_entity_def LIMIT_def)
  have v: "fetch_pages (null_sku_api k sec lang ''variants'') ''variants'' 1 [] [] =
        Some (Inr ([] @ [with_image (mk_variant 11 JNull 1)]), [] @ [Request 1 0])"
    by (rule fetch_pages_last[where b="[mk_variant 11 JNull 1]"
          and body="JDict [(''variants'', JList [mk_variant 11 JNull 1])]"])
       (simp_all add: null_sku_api_def with_image_def mk_variant_def normalize_entity_def LIMIT_def)
  show ?thesis
    using p v
    by (simp add: fetch_pair_def fetch_products_def fetch_variants_def null_sku_env_def)
qed

text \<open>
  Claim C9 as stated has the run abort when an attached variant lacks a SKU value. In a
  run whose only variant has \<^verbatim>\<open>"sku": null\<close> and is attached to the only product, the
  rows are built, with the null in the column \<^verbatim>\<open>sku\<close>, and the run returns normally:
  \<^verbatim>\<open>v["sku"]\<close> raises for an absent key only.
\<close>

theorem null_sku_counterexample:
  "map_option fst (sync_shop null_sku_env ex_shop empty_world) = Some (Inr ())
   \<and> fetch_pair null_sku_env ''key'' ''secret'' ''nl'' =
       Some (Inr ([JDict [(''id'', JInt 1), (''title'', JStr ''t''), (''image'', JNull)]],
                  [JDict [(''id'', JInt 11), (''sku'', JNull),
                          (''product'', JDict [(''resource'', JDict [(''id'', JInt 1)])]),
                          (''image'', JNull)]]))
   \<and> build_rows ex_shop ''nl''
       [JDict [(''id'', JInt 1), (''title'', JStr ''t''), (''image'', JNull),
               (''variants'', JList [JDict [(''id'', JInt 11), (''sku'', JNull), (''image'', JNull)]])]] =
       Inr \<lparr>product_rows = [product_row_of ex_shop (JInt 1)
               (JDict [(''id'', JInt 1), (''title'', JStr ''t''), (''image'', JNull)])],
            content_rows = [content_row_of ex_shop ''nl'' (JInt 1)
               (JDict [(''id'', JInt 1), (''title'', JStr ''t''), (''image'', JNull)])],
            variant_rows =
              [\<lparr>vr_shop_id = JInt 1, vr_product_id = JInt 1, vr_variant_id = JInt 11,
                vr_sku = JNull, vr_is_default = JNull, vr_price_excl = JNull, vr_image = JNull\<rparr>],
            variant_content_rows =
              [\<lparr>vc_shop_id = JInt 1, vc_variant_id = JInt 11, vc_language_code = ''nl'',
                vc_title = JNull\<rparr>]\<rparr>"
proof -
  have nf: "\<forall>n. store_fault null_sku_env n = None" by (simp add: null_sku_env_def ex_env_def)
  have res: "resolve null_sku_env ex_shop = Inr (''key'', ''secret'', ''nl'', [''nl'', ''de''])"
    by (rule resolve_ex_shop) (simp_all add: null_sku_env_def)
  have wf: "\<forall>p\<in>set [with_image (mk_product 1)]. wf_product p"
      "\<forall>v\<in>set [with_image (mk_variant 11 JNull 1)]. complete_variant v"
    by (simp_all add: with_image_def normalize_entity_def complete_variant_def example_defs)
  have fp: "\<forall>lang\<in>set [''nl'', ''nl'', ''de''].
      \<exists>ps vs. fetch_pair null_sku_env ''key'' ''secret'' lang = Some (Inr (ps, vs)) \<and>
           (\<forall>p\<in>set ps. wf_product p) \<and> (\<forall>v\<in>set vs. complete_variant v)"
    using null_sku_fetch_pair wf by blast
  have h: "\<forall>r\<in>set (tbl_products empty_world). \<exists>k. hash_key (pr_product_id r) = Inr k"
      "\<forall>r\<in>set (tbl_variants empty_world). \<exists>k. hash_key (vr_variant_id r) = Inr k"
    by (simp_all add: empty_world_def)
  from sync_shop_succeeds[OF nf res fp h] obtain w' where
    "sync_shop null_sku_env ex_shop empty_world = Some (Inr (), w')" ..
  then have 1: "map_option fst (sync_shop null_sku_env ex_shop empty_world) = Some (Inr ())"
    by simp
  have 2: "fetch_pair null_sku_env ''key'' ''secret'' ''nl'' =
       Some (Inr ([JDict [(''id'', JInt 1), (''title'', JStr ''t''), (''image'', JNull)]],
                  [JDict [(''id'', JInt 11), (''sku'', JNull),
                          (''product'', JDict [(''resource'', JDict [(''id'', JInt 1)])]),
                          (''image'', JNull)]]))"
    by (simp add: null_sku_fetch_pair with_image_def normalize_entity_def mk_product_def
        mk_variant_def)
  have 3: "build_rows ex_shop ''nl''
       [JDict [(''id'', JInt 1), (''title'', JStr ''t''), (''image'', JNull),
               (''variants'', JList [JDict [(''id'', JInt 11), (''sku'', JNull), (''image'', JNull)]])]] =
       Inr \<lparr>product_rows = [product_row_of ex_shop (JInt 1)
               (JDict [(''id'', JInt 1), (''title'', JStr ''t''), (''image'', JNull)])],
            content_rows = [content_row_of ex_shop ''nl'' (JInt 1)
               (JDict [(''id'', JInt 1), (''title'', JStr ''t''), (''image'', JNull)])],
            variant_rows =
              [\<lparr>vr_shop_id = JInt 1, vr_product_id = JInt 1, vr_variant_id = JInt 11,
                vr_sku = JNull, vr_is_default = JNull, vr_price_excl = JNull, vr_image = JNull\<rparr>],
            variant_content_rows =
              [\<lparr>vc_shop_id = JInt 1, vc_variant_id = JInt 11, vc_language_code = ''nl'',
                vc_title = JNull\<rparr>]\<rparr>"
    by (simp add: build_rows_def rows_of_product_def variant_rows_of_def product_row_of_def
        content_row_of_def ex_shop_def)
  from 1 2 3 show ?thesis by blast
qed





end
